theory Spec2Isabelle
  imports Complex_Main
begin

section \<open>Data model of the alert workflow\<close>

text \<open>
  The workflow of \<^verbatim>\<open>polymarket-alert-workflow.ts\<close>. Timestamps (\<^verbatim>\<open>Date.now()\<close>)
  are integers, in milliseconds. Strings are lists of characters; a character is a code
  unit below 256.
\<close>

subsection \<open>Numbers\<close>

text \<open>
  A JavaScript number is an IEEE 754 double. The model denotes a finite double by its
  exact rational value; \<open>round_double\<close> rounds a rational to the nearest double, ties to
  the even significand, with the gradual underflow of the format. The product of two
  doubles is the rounded exact product. A number written in a JSON body, such as
  \<^verbatim>\<open>0.57\<close>, denotes \<open>round_double (57 / 100)\<close>. The values \<^verbatim>\<open>NaN\<close> and \<^verbatim>\<open>Infinity\<close>
  have no counterpart in the model.
\<close>

function ilog2 :: "int \<Rightarrow> int" where
  "ilog2 n = (if n < 2 then 0 else 1 + ilog2 (n div 2))"
  by auto
termination
  by (relation "measure nat") auto

definition pow2 :: "int \<Rightarrow> rat" where
  "pow2 k = (if k \<ge> 0 then 2 ^ nat k else 1 / 2 ^ nat (- k))"

text \<open>The exponent \<open>e\<close> with \<open>2 ^ e \<le> x < 2 ^ (e + 1)\<close>, for \<open>x > 0\<close>.\<close>

definition binade :: "rat \<Rightarrow> int" where
  "binade x =
     (case quotient_of x of
        (p, q) \<Rightarrow>
          (let k = ilog2 p - ilog2 q
           in if pow2 k \<le> x then k else k - 1))"

definition round_half_even :: "rat \<Rightarrow> int" where
  "round_half_even x =
     (let n = \<lfloor>x\<rfloor>; d = x - of_int n
      in if d < 1 / 2 then n
         else if d > 1 / 2 then n + 1
         else if even n then n else n + 1)"

definition round_double :: "rat \<Rightarrow> rat" where
  "round_double x =
     (if x = 0 then 0
      else
        let a = \<bar>x\<bar>;
            e = max (binade a) (- 1022);
            ulp = pow2 (e - 52)
        in sgn x * of_int (round_half_even (a / ulp)) * ulp)"

definition js_times :: "rat \<Rightarrow> rat \<Rightarrow> rat" where
  "js_times x y = round_double (x * y)"

subsection \<open>Records of the workflow\<close>

text \<open>
  \<^verbatim>\<open>lastChecked\<close> is a plain object: the field holds its own properties, the poll
  timestamps by market id.
\<close>

datatype direction = Above | Below

record polymarketToken =
  token_id :: string
  token_outcome :: string
  price :: rat
  winner :: "bool option"

record polymarketMarket =
  condition_id :: string
  question :: string
  outcomes :: "string list"
  tokens :: "polymarketToken list"
  active :: bool
  closed_flag :: bool
  volume :: "rat option"

record alertConfig =
  marketId :: string
  outcome :: string
  threshold :: rat
  direction :: direction
  notifyUrl :: string

record workflowState =
  alertConfigs :: "alertConfig list"
  lastChecked :: "string \<rightharpoonup> int"
  triggeredAlerts :: "string list"

subsection \<open>What the code takes from its runtime and from the network\<close>

text \<open>
  The rendering of a number inside a template literal (\<^verbatim>\<open>`${config.threshold}`\<close>) and
  \<^verbatim>\<open>Number.prototype.toFixed\<close> belong to the language runtime; they are parameters
  of the model, so every theorem holds for any rendering.
\<close>

record runtime =
  numToString :: "rat \<Rightarrow> string"
  toFixed :: "rat \<Rightarrow> nat \<Rightarrow> string"

text \<open>
  The outcome of \<^verbatim>\<open>fetch(url)\<close> followed by \<^verbatim>\<open>response.json()\<close>: the call throws,
  or it gives a response with its \<^verbatim>\<open>ok\<close> flag and a body, whose decoding throws or
  gives a market or \<^verbatim>\<open>null\<close>.
\<close>

datatype json_body = BadJson | Json "polymarketMarket option"

datatype get_result = GetThrows | GetResponse bool json_body

datatype post_result = PostThrows | PostResponse bool

text \<open>
  One pass sees one clock reading (\<^verbatim>\<open>const now = Date.now()\<close>), the market data
  provider and the webhook endpoint.
\<close>

record env =
  now :: int
  http_get :: "string \<Rightarrow> get_result"
  http_post :: "alertConfig \<Rightarrow> polymarketMarket \<Rightarrow> rat \<Rightarrow> post_result"

subsection \<open>Strings\<close>

text \<open>\<^verbatim>\<open>String.prototype.toLowerCase\<close> on code units below 256.\<close>

definition lower_char :: "char \<Rightarrow> char" where
  "lower_char c =
     (let n = (of_char c :: nat)
      in if (65 \<le> n \<and> n \<le> 90) \<or> (192 \<le> n \<and> n \<le> 222 \<and> n \<noteq> 215)
         then char_of (n + 32) else c)"

definition toLowerCase :: "string \<Rightarrow> string" where
  "toLowerCase s = map lower_char s"

section \<open>The evaluation engine\<close>

definition direction_str :: "direction \<Rightarrow> string" where
  "direction_str d = (case d of Above \<Rightarrow> ''above'' | Below \<Rightarrow> ''below'')"

text \<open>
  \<^verbatim>\<open>`${config.marketId}-${config.outcome}-${config.threshold}-${config.direction}`\<close>
\<close>

definition alertKey :: "runtime \<Rightarrow> alertConfig \<Rightarrow> string" where
  "alertKey rt config =
     marketId config @ ''-'' @ outcome config @ ''-'' @
     numToString rt (threshold config) @ ''-'' @ direction_str (direction config)"

definition fetchMarketData :: "env \<Rightarrow> string \<Rightarrow> polymarketMarket option" where
  "fetchMarketData e mid =
     (case http_get e mid of
        GetThrows \<Rightarrow> None
      | GetResponse ok body \<Rightarrow>
          if \<not> ok then None
          else (case body of BadJson \<Rightarrow> None | Json m \<Rightarrow> m))"

text \<open>
  \<^verbatim>\<open>market.tokens.find(t => t.outcome.toLowerCase() === config.outcome.toLowerCase())\<close>
\<close>

definition find_token :: "polymarketMarket \<Rightarrow> alertConfig \<Rightarrow> polymarketToken option" where
  "find_token market config =
     List.find (\<lambda>t. toLowerCase (token_outcome t) = toLowerCase (outcome config))
       (tokens market)"

definition checkAlertCondition :: "polymarketMarket \<Rightarrow> alertConfig \<Rightarrow> bool" where
  "checkAlertCondition market config =
     (case find_token market config of
        None \<Rightarrow> False
      | Some token \<Rightarrow>
          (let currentPrice = js_times (price token) 100
           in if direction config = Above then currentPrice \<ge> threshold config
              else currentPrice \<le> threshold config))"

definition sendAlert :: "env \<Rightarrow> alertConfig \<Rightarrow> polymarketMarket \<Rightarrow> rat \<Rightarrow> bool" where
  "sendAlert e config market currentPrice =
     (case http_post e config market currentPrice of
        PostThrows \<Rightarrow> False
      | PostResponse ok \<Rightarrow> ok)"

text \<open>
  The calls a pass makes to the outside, in order: a market fetch issued for a
  configuration, and a webhook call with the price sent and whether it succeeded.
\<close>

datatype event = Fetch alertConfig | Notify alertConfig rat bool

type_synonym pass_acc = "workflowState \<times> string list \<times> event list"

definition alert_text :: "runtime \<Rightarrow> polymarketMarket \<Rightarrow> alertConfig \<Rightarrow> rat \<Rightarrow> string" where
  "alert_text rt market config currentPrice =
     ''Alert triggered: '' @ question market @ '' - '' @ outcome config @ '' at '' @
     toFixed rt currentPrice 1 @ ''%''"

text \<open>
  Reading and writing a property of a plain object. A name that is not an own property
  is looked up in \<^verbatim>\<open>Object.prototype\<close>, whose properties are functions, and for
  \<^verbatim>\<open>__proto__\<close> the prototype object itself. Assigning a number to a name that is not an
  own property creates the own property, except for \<^verbatim>\<open>__proto__\<close>: there the setter
  of \<^verbatim>\<open>Object.prototype\<close> runs and ignores a number.
\<close>

definition object_prototype_names :: "string list" where
  "object_prototype_names =
     [''constructor'', ''__defineGetter__'', ''__defineSetter__'', ''hasOwnProperty'',
      ''__lookupGetter__'', ''__lookupSetter__'', ''isPrototypeOf'', ''propertyIsEnumerable'',
      ''toString'', ''valueOf'', ''__proto__'', ''toLocaleString'']"

datatype js_lookup = Undefined | NumberValue int | ObjectValue

definition get_property :: "(string \<rightharpoonup> int) \<Rightarrow> string \<Rightarrow> js_lookup" where
  "get_property obj key =
     (case obj key of
        Some n \<Rightarrow> NumberValue n
      | None \<Rightarrow> if key \<in> set object_prototype_names then ObjectValue else Undefined)"

definition set_property :: "(string \<rightharpoonup> int) \<Rightarrow> string \<Rightarrow> int \<Rightarrow> (string \<rightharpoonup> int)" where
  "set_property obj key n =
     (if obj key = None \<and> key = ''__proto__'' then obj else obj(key \<mapsto> n))"

text \<open>
  \<^verbatim>\<open>state.lastChecked[config.marketId] || 0\<close>: \<^verbatim>\<open>undefined\<close> and \<^verbatim>\<open>0\<close> give
  \<^verbatim>\<open>0\<close>, an object stays.
\<close>

definition lastCheckedOr0 :: "workflowState \<Rightarrow> string \<Rightarrow> js_lookup" where
  "lastCheckedOr0 state mid =
     (case get_property (lastChecked state) mid of
        Undefined \<Rightarrow> NumberValue 0
      | NumberValue n \<Rightarrow> NumberValue n
      | ObjectValue \<Rightarrow> ObjectValue)"

text \<open>
  \<^verbatim>\<open>now - lastChecked < 60000\<close>: with an object the difference is \<^verbatim>\<open>NaN\<close> and the
  comparison is false.
\<close>

definition within_minute :: "int \<Rightarrow> js_lookup \<Rightarrow> bool" where
  "within_minute t v =
     (case v of NumberValue n \<Rightarrow> t - n < 60000 | Undefined \<Rightarrow> False | ObjectValue \<Rightarrow> False)"

text \<open>
  The body of the loop of \<^verbatim>\<open>executeWorkflow\<close>, on the state, the alerts collected
  so far and the calls made so far. Each \<^verbatim>\<open>continue\<close> returns the accumulator as it
  is at that point.
\<close>

fun loop_body :: "runtime \<Rightarrow> env \<Rightarrow> pass_acc \<Rightarrow> alertConfig \<Rightarrow> pass_acc" where
  "loop_body rt e (state, alerts, trace) config =
     (let key = alertKey rt config in
      if key \<in> set (triggeredAlerts state) then (state, alerts, trace)
      else
        let last = lastCheckedOr0 state (marketId config) in
        if within_minute (now e) last then (state, alerts, trace)
        else
          let state1 = state\<lparr>lastChecked :=
                               set_property (lastChecked state) (marketId config) (now e)\<rparr>;
              trace1 = trace @ [Fetch config]
          in (case fetchMarketData e (marketId config) of
                None \<Rightarrow> (state1, alerts, trace1)
              | Some market \<Rightarrow>
                  if \<not> active market \<or> closed_flag market then (state1, alerts, trace1)
                  else if checkAlertCondition market config then
                    let currentPrice =
                          js_times
                            (case find_token market config of None \<Rightarrow> 0 | Some t \<Rightarrow> price t) 100;
                        sent = sendAlert e config market currentPrice;
                        trace2 = trace1 @ [Notify config currentPrice sent]
                    in if sent
                       then (state1\<lparr>triggeredAlerts := triggeredAlerts state1 @ [key]\<rparr>,
                             alerts @ [alert_text rt market config currentPrice], trace2)
                       else (state1, alerts, trace2)
                  else (state1, alerts, trace1)))"

definition executeWorkflow :: "runtime \<Rightarrow> env \<Rightarrow> workflowState \<Rightarrow> pass_acc" where
  "executeWorkflow rt e state = foldl (loop_body rt e) (state, [], []) (alertConfigs state)"

subsection \<open>The process around the passes\<close>

text \<open>
  What happens to the state in the life of a process: a scheduled pass, and the two
  edits of \<^verbatim>\<open>api.ts\<close>, \<^verbatim>\<open>state.alertConfigs.push(config)\<close> and
  \<^verbatim>\<open>state.alertConfigs.splice(id, 1)\<close> behind its range check. Nothing else writes
  the state. The calls of all passes are collected in one trace.
\<close>

datatype op = RunPass env | AddAlert alertConfig | DeleteAlert int

fun apply_op :: "runtime \<Rightarrow> workflowState \<times> event list \<Rightarrow> op \<Rightarrow> workflowState \<times> event list" where
  "apply_op rt (state, trace) (RunPass e) =
     (case executeWorkflow rt e state of (state', alerts, tr) \<Rightarrow> (state', trace @ tr))"
| "apply_op rt (state, trace) (AddAlert config) =
     (state\<lparr>alertConfigs := alertConfigs state @ [config]\<rparr>, trace)"
| "apply_op rt (state, trace) (DeleteAlert i) =
     (if i < 0 \<or> i \<ge> int (length (alertConfigs state)) then (state, trace)
      else (state\<lparr>alertConfigs :=
              take (nat i) (alertConfigs state) @ drop (nat i + 1) (alertConfigs state)\<rparr>,
            trace))"

definition run_ops :: "runtime \<Rightarrow> workflowState \<Rightarrow> op list \<Rightarrow> workflowState \<times> event list" where
  "run_ops rt state ops = foldl (apply_op rt) (state, []) ops"

text \<open>Reading a trace: the calls made for a key, and the successful deliveries.\<close>

fun concerns :: "runtime \<Rightarrow> string \<Rightarrow> event \<Rightarrow> bool" where
  "concerns rt k (Fetch c) = (alertKey rt c = k)"
| "concerns rt k (Notify c p ok) = (alertKey rt c = k)"

fun delivered :: "runtime \<Rightarrow> string \<Rightarrow> event \<Rightarrow> bool" where
  "delivered rt k (Fetch c) = False"
| "delivered rt k (Notify c p ok) = (ok \<and> alertKey rt c = k)"

fun fetched :: "event list \<Rightarrow> alertConfig list" where
  "fetched [] = []"
| "fetched (Fetch c # evs) = c # fetched evs"
| "fetched (Notify c p ok # evs) = fetched evs"

fun notified :: "event list \<Rightarrow> alertConfig list" where
  "notified [] = []"
| "notified (Fetch c # evs) = notified evs"
| "notified (Notify c p ok # evs) = c # notified evs"

fun sent_ok :: "event list \<Rightarrow> alertConfig list" where
  "sent_ok [] = []"
| "sent_ok (Fetch c # evs) = sent_ok evs"
| "sent_ok (Notify c p ok # evs) = (if ok then c # sent_ok evs else sent_ok evs)"

definition once_inv :: "runtime \<Rightarrow> string \<Rightarrow> workflowState \<Rightarrow> event list \<Rightarrow> bool" where
  "once_inv rt k s tr =
     (length (filter (delivered rt k) tr) \<le> 1 \<and>
      (filter (delivered rt k) tr \<noteq> [] \<longrightarrow> k \<in> set (triggeredAlerts s)))"

text \<open>Invariants of the loop, used in the proofs below.\<close>

definition recorded :: "alertConfig \<Rightarrow> bool" where
  "recorded c = (marketId c \<noteq> ''__proto__'')"

definition poll_inv :: "env \<Rightarrow> workflowState \<Rightarrow> event list \<Rightarrow> bool" where
  "poll_inv e s t =
     (distinct (map marketId (filter recorded (fetched t))) \<and>
      distinct (map marketId (filter recorded (notified t))) \<and>
      set (notified t) \<subseteq> set (fetched t) \<and>
      (\<forall>c\<in>set (fetched t). recorded c \<longrightarrow> lastChecked s (marketId c) = Some (now e)))"

definition gate_inv :: "runtime \<Rightarrow> workflowState \<Rightarrow> pass_acc \<Rightarrow> bool" where
  "gate_inv rt s0 acc =
     (case acc of (s, a, t) \<Rightarrow>
        triggeredAlerts s = triggeredAlerts s0 @ map (alertKey rt) (sent_ok t) \<and>
        length a = length (sent_ok t))"

subsection \<open>A runtime and a scenario for the worked examples\<close>

text \<open>
  A rendering of numbers for the examples: \<^verbatim>\<open>toFixed\<close> rounds the magnitude half up
  at the requested digit; a number is printed with the fewest decimal places (up to 17)
  that represent it exactly. On the integers and short decimals of the examples this
  is what JavaScript prints.
\<close>

definition digit_char :: "nat \<Rightarrow> char" where
  "digit_char d = char_of (48 + d)"

fun dec_digits :: "nat \<Rightarrow> string" where
  "dec_digits n =
     (if n < 10 then [digit_char n] else dec_digits (n div 10) @ [digit_char (n mod 10)])"

definition fixed_digits :: "rat \<Rightarrow> nat \<Rightarrow> string" where
  "fixed_digits x d =
     (let n = nat \<lfloor>\<bar>x\<bar> * 10 ^ d + 1 / 2\<rfloor>;
          ds = dec_digits n;
          padded = replicate (d + 1 - length ds) (CHR ''0'') @ ds;
          k = length padded - d
      in (if x < 0 then ''-'' else []) @ take k padded @
         (if d = 0 then [] else ''.'' @ drop k padded))"

fun decimal_places :: "nat \<Rightarrow> nat \<Rightarrow> rat \<Rightarrow> nat" where
  "decimal_places 0 d x = d"
| "decimal_places (Suc fuel) d x =
     (if of_int \<lfloor>x * 10 ^ d\<rfloor> = x * 10 ^ d then d else decimal_places fuel (Suc d) x)"

definition sample_runtime :: runtime where
  "sample_runtime =
     \<lparr>numToString = (\<lambda>x. fixed_digits x (decimal_places 17 0 x)), toFixed = fixed_digits\<rparr>"

text \<open>
  Two open markets \<^verbatim>\<open>M\<close> and \<^verbatim>\<open>N\<close>, a closed one \<^verbatim>\<open>C\<close>, and an open one with
  the id \<^verbatim>\<open>__proto__\<close>; any other market id is answered with an error status. The
  webhook answers, or the call to it throws. A price is the double of its decimal
  numeral.
\<close>

definition token_65 :: polymarketToken where
  "token_65 =
     \<lparr>token_id = ''1'', token_outcome = ''Yes'', price = round_double (65 / 100), winner = None\<rparr>"

definition market_M :: polymarketMarket where
  "market_M =
     \<lparr>condition_id = ''M'', question = ''Will Trump win?'', outcomes = [''Yes'', ''No''],
      tokens = [token_65,
                \<lparr>token_id = ''2'', token_outcome = ''No'', price = round_double (35 / 100),
                  winner = None\<rparr>],
      active = True, closed_flag = False, volume = None\<rparr>"

definition market_N :: polymarketMarket where
  "market_N =
     \<lparr>condition_id = ''N'', question = ''Will Biden win?'', outcomes = [''Yes'', ''No''],
      tokens = [\<lparr>token_id = ''3'', token_outcome = ''Yes'', price = round_double (35 / 100),
                  winner = None\<rparr>,
                \<lparr>token_id = ''4'', token_outcome = ''No'', price = round_double (65 / 100),
                  winner = None\<rparr>],
      active = True, closed_flag = False, volume = None\<rparr>"

definition market_C :: polymarketMarket where
  "market_C = market_M\<lparr>condition_id := ''C'', closed_flag := True\<rparr>"

definition market_P :: polymarketMarket where
  "market_P = market_M\<lparr>condition_id := ''__proto__''\<rparr>"

definition provider :: "string \<Rightarrow> get_result" where
  "provider mid =
     (if mid = ''M'' then GetResponse True (Json (Some market_M))
      else if mid = ''N'' then GetResponse True (Json (Some market_N))
      else if mid = ''C'' then GetResponse True (Json (Some market_C))
      else if mid = ''__proto__'' then GetResponse True (Json (Some market_P))
      else GetResponse False BadJson)"

definition env_ok :: "int \<Rightarrow> env" where
  "env_ok t = \<lparr>now = t, http_get = provider, http_post = (\<lambda>c m p. PostResponse True)\<rparr>"

definition env_down :: "int \<Rightarrow> env" where
  "env_down t = \<lparr>now = t, http_get = provider, http_post = (\<lambda>c m p. PostThrows)\<rparr>"

definition config_M :: alertConfig where
  "config_M = \<lparr>marketId = ''M'', outcome = ''Yes'', threshold = 60, direction = Above,
                notifyUrl = ''https://example.org/hook''\<rparr>"

definition config_M50 :: alertConfig where
  "config_M50 = config_M\<lparr>threshold := 50\<rparr>"

definition config_N :: alertConfig where
  "config_N = \<lparr>marketId = ''N'', outcome = ''yes'', threshold = 40, direction = Below,
                notifyUrl = ''https://example.org/hook''\<rparr>"

definition config_C :: alertConfig where
  "config_C = config_M\<lparr>marketId := ''C''\<rparr>"

definition config_P :: alertConfig where
  "config_P = config_M\<lparr>marketId := ''__proto__''\<rparr>"

definition config_P50 :: alertConfig where
  "config_P50 = config_P\<lparr>threshold := 50\<rparr>"

definition config_neg :: alertConfig where
  "config_neg = config_M\<lparr>threshold := - 5\<rparr>"

definition state_of :: "alertConfig list \<Rightarrow> string list \<Rightarrow> workflowState" where
  "state_of cs fired = \<lparr>alertConfigs = cs, lastChecked = Map.empty, triggeredAlerts = fired\<rparr>"











definition state_recent :: workflowState where
  "state_recent =
     \<lparr>alertConfigs = [config_M], lastChecked = [''M'' \<mapsto> 1000], triggeredAlerts = []\<rparr>"

definition state_waiting :: workflowState where
  "state_waiting =
     \<lparr>alertConfigs = [config_M, config_N], lastChecked = [''M'' \<mapsto> 90000],
      triggeredAlerts = []\<rparr>"

definition config_A :: alertConfig where
  "config_A = \<lparr>marketId = ''M-Yes'', outcome = ''No'', threshold = 60, direction = Above,
                notifyUrl = ''https://example.org/hook''\<rparr>"

definition config_B :: alertConfig where
  "config_B = \<lparr>marketId = ''M'', outcome = ''Yes-No'', threshold = 60, direction = Above,
                notifyUrl = ''https://example.org/hook''\<rparr>"

section \<open>Regular expressions\<close>

text \<open>
  The part of JavaScript's regular expressions that the parser uses, with the
  backtracking order of the language: a matcher returns every way to match from a
  position, most preferred first, and the first one that lets the rest of the pattern
  match is taken. Group numbers are those of the source pattern; a non-capturing group
  is the expression inside it.
\<close>

datatype regex =
    Lit char              \<comment> \<open>a literal character\<close>
  | Dot                   \<comment> \<open>\<^verbatim>\<open>.\<close>\<close>
  | Digit                 \<comment> \<open>\<^verbatim>\<open>\d\<close>\<close>
  | WordChar              \<comment> \<open>\<^verbatim>\<open>\w\<close>\<close>
  | Space                 \<comment> \<open>\<^verbatim>\<open>\s\<close>\<close>
  | OneOf "char list"     \<comment> \<open>\<^verbatim>\<open>[...]\<close>\<close>
  | WordB                 \<comment> \<open>\<^verbatim>\<open>\b\<close>\<close>
  | Eps
  | Seq regex regex
  | Alt regex regex       \<comment> \<open>\<^verbatim>\<open>r|s\<close>\<close>
  | Opt regex             \<comment> \<open>\<^verbatim>\<open>r?\<close>\<close>
  | Star regex            \<comment> \<open>\<^verbatim>\<open>r*\<close>\<close>
  | Plus regex            \<comment> \<open>\<^verbatim>\<open>r+\<close>\<close>
  | LazyPlus regex        \<comment> \<open>\<^verbatim>\<open>r+?\<close>\<close>
  | Group nat regex       \<comment> \<open>\<^verbatim>\<open>(r)\<close>, numbered\<close>

fun lits :: "string \<Rightarrow> regex" where
  "lits [] = Eps"
| "lits [c] = Lit c"
| "lits (c # cs) = Seq (Lit c) (lits cs)"

fun seqs :: "regex list \<Rightarrow> regex" where
  "seqs [] = Eps"
| "seqs [r] = r"
| "seqs (r # rs) = Seq r (seqs rs)"

fun alts :: "regex list \<Rightarrow> regex" where
  "alts [] = Eps"
| "alts [r] = r"
| "alts (r # rs) = Alt r (alts rs)"

definition is_digit :: "char \<Rightarrow> bool" where
  "is_digit c = (let n = (of_char c :: nat) in 48 \<le> n \<and> n \<le> 57)"

definition is_word :: "char \<Rightarrow> bool" where
  "is_word c =
     (let n = (of_char c :: nat)
      in (48 \<le> n \<and> n \<le> 57) \<or> (65 \<le> n \<and> n \<le> 90) \<or> (97 \<le> n \<and> n \<le> 122) \<or> n = 95)"

text \<open>White space and line terminators among the code units below 256.\<close>

definition is_space :: "char \<Rightarrow> bool" where
  "is_space c = (let n = (of_char c :: nat) in (9 \<le> n \<and> n \<le> 13) \<or> n = 32 \<or> n = 160)"

definition is_line_end :: "char \<Rightarrow> bool" where
  "is_line_end c = (let n = (of_char c :: nat) in n = 10 \<or> n = 13)"

text \<open>
  Under the flag \<^verbatim>\<open>i\<close> two characters match when their canonical forms agree; for
  the ASCII literals of the patterns this is equality up to the case of ASCII letters.
\<close>

definition ascii_lower :: "char \<Rightarrow> char" where
  "ascii_lower c =
     (let n = (of_char c :: nat) in if 65 \<le> n \<and> n \<le> 90 then char_of (n + 32) else c)"

definition char_matches :: "bool \<Rightarrow> char \<Rightarrow> char \<Rightarrow> bool" where
  "char_matches ci x c = (if ci then ascii_lower x = ascii_lower c else x = c)"

text \<open>
  A position in the input: the character before it (for \<^verbatim>\<open>\b\<close>), the text from it
  on, and the groups captured so far.
\<close>

record mstate =
  prev :: "char option"
  rest :: string
  caps :: "(nat \<times> string) list"

definition step_char :: "(char \<Rightarrow> bool) \<Rightarrow> mstate \<Rightarrow> mstate list" where
  "step_char p st =
     (case rest st of
        [] \<Rightarrow> []
      | x # xs \<Rightarrow> if p x then [st\<lparr>prev := Some x, rest := xs\<rparr>] else [])"

definition progress :: "mstate \<Rightarrow> mstate \<Rightarrow> bool" where
  "progress st st' = (length (rest st') < length (rest st))"

text \<open>
  Repetition. An iteration that consumes nothing is rejected, as the language does for
  a quantifier without a minimum, so the number of iterations is bounded by the length
  of the remaining text.
\<close>

fun greedy_star :: "nat \<Rightarrow> (mstate \<Rightarrow> mstate list) \<Rightarrow> mstate \<Rightarrow> mstate list" where
  "greedy_star 0 body st = [st]"
| "greedy_star (Suc n) body st =
     concat (map (greedy_star n body) (filter (progress st) (body st))) @ [st]"

fun lazy_star :: "nat \<Rightarrow> (mstate \<Rightarrow> mstate list) \<Rightarrow> mstate \<Rightarrow> mstate list" where
  "lazy_star 0 body st = [st]"
| "lazy_star (Suc n) body st =
     st # concat (map (lazy_star n body) (filter (progress st) (body st)))"

definition at_boundary :: "mstate \<Rightarrow> bool" where
  "at_boundary st =
     ((case prev st of None \<Rightarrow> False | Some c \<Rightarrow> is_word c) \<noteq>
      (case rest st of [] \<Rightarrow> False | c # cs \<Rightarrow> is_word c))"

definition capture :: "nat \<Rightarrow> mstate \<Rightarrow> mstate \<Rightarrow> mstate" where
  "capture n st st' =
     st'\<lparr>caps := (n, take (length (rest st) - length (rest st')) (rest st)) # caps st'\<rparr>"

fun ms :: "bool \<Rightarrow> regex \<Rightarrow> mstate \<Rightarrow> mstate list" where
  "ms ci (Lit c) st = step_char (\<lambda>x. char_matches ci x c) st"
| "ms ci Dot st = step_char (\<lambda>x. \<not> is_line_end x) st"
| "ms ci Digit st = step_char is_digit st"
| "ms ci WordChar st = step_char is_word st"
| "ms ci Space st = step_char is_space st"
| "ms ci (OneOf cs) st = step_char (\<lambda>x. \<exists>c\<in>set cs. char_matches ci x c) st"
| "ms ci WordB st = (if at_boundary st then [st] else [])"
| "ms ci Eps st = [st]"
| "ms ci (Seq r1 r2) st = concat (map (ms ci r2) (ms ci r1 st))"
| "ms ci (Alt r1 r2) st = ms ci r1 st @ ms ci r2 st"
| "ms ci (Opt r) st = filter (progress st) (ms ci r st) @ [st]"
| "ms ci (Star r) st = greedy_star (length (rest st)) (ms ci r) st"
| "ms ci (Plus r) st =
     concat (map (\<lambda>st'. greedy_star (length (rest st')) (ms ci r) st') (ms ci r st))"
| "ms ci (LazyPlus r) st =
     concat (map (\<lambda>st'. lazy_star (length (rest st')) (ms ci r) st') (ms ci r st))"
| "ms ci (Group n r) st = map (capture n st) (ms ci r st)"

text \<open>
  The first match of an expression in a text, trying each start position from the
  left: the number of characters before the match, and the state at its end.
\<close>

fun search :: "bool \<Rightarrow> regex \<Rightarrow> char option \<Rightarrow> string \<Rightarrow> (nat \<times> mstate) option" where
  "search ci r p [] =
     (case ms ci r \<lparr>prev = p, rest = [], caps = []\<rparr> of [] \<Rightarrow> None | st # _ \<Rightarrow> Some (0, st))"
| "search ci r p (c # cs) =
     (case ms ci r \<lparr>prev = p, rest = c # cs, caps = []\<rparr> of
        [] \<Rightarrow> (case search ci r (Some c) cs of None \<Rightarrow> None | Some (i, st) \<Rightarrow> Some (Suc i, st))
      | st # _ \<Rightarrow> Some (0, st))"

text \<open>
  \<^verbatim>\<open>text.match(regex)\<close> for a pattern without the flag \<^verbatim>\<open>g\<close>: the groups of the first
  match. \<^verbatim>\<open>regex.test(text)\<close>: whether there is a match.
\<close>

definition match_groups :: "bool \<Rightarrow> regex \<Rightarrow> string \<Rightarrow> (nat \<rightharpoonup> string) option" where
  "match_groups ci r s =
     (case search ci r None s of None \<Rightarrow> None | Some (i, st) \<Rightarrow> Some (map_of (caps st)))"

definition test_re :: "bool \<Rightarrow> regex \<Rightarrow> string \<Rightarrow> bool" where
  "test_re ci r s = (search ci r None s \<noteq> None)"

text \<open>
  \<^verbatim>\<open>text.split(regex)\<close> for a pattern without groups that matches no empty text: the
  pieces between successive matches.
\<close>

fun split_from :: "nat \<Rightarrow> bool \<Rightarrow> regex \<Rightarrow> char option \<Rightarrow> string \<Rightarrow> string list" where
  "split_from 0 ci r p s = [s]"
| "split_from (Suc n) ci r p s =
     (case search ci r p s of
        None \<Rightarrow> [s]
      | Some (i, st) \<Rightarrow>
          if length (rest st) < length s
          then take i s # split_from n ci r (prev st) (rest st)
          else [s])"

definition split_re :: "bool \<Rightarrow> regex \<Rightarrow> string \<Rightarrow> string list" where
  "split_re ci r s = split_from (length s) ci r None s"

text \<open>\<^verbatim>\<open>String.prototype.includes\<close> and \<^verbatim>\<open>String.prototype.trim\<close>.\<close>

fun starts_with :: "string \<Rightarrow> string \<Rightarrow> bool" where
  "starts_with s [] = True"
| "starts_with [] (k # ks) = False"
| "starts_with (c # cs) (k # ks) = (c = k \<and> starts_with cs ks)"

fun str_includes :: "string \<Rightarrow> string \<Rightarrow> bool" where
  "str_includes [] kw = starts_with [] kw"
| "str_includes (c # cs) kw = (starts_with (c # cs) kw \<or> str_includes cs kw)"

definition trim :: "string \<Rightarrow> string" where
  "trim s = rev (dropWhile is_space (rev (dropWhile is_space s)))"

text \<open>
  \<^verbatim>\<open>parseFloat\<close> on the texts it is given here, which match \<^verbatim>\<open>\d+(?:\.\d+)?\<close>: the
  double nearest to the value of the decimal numeral.
\<close>

definition digit_val :: "char \<Rightarrow> nat" where
  "digit_val c = of_char c - 48"

definition digits_val :: "string \<Rightarrow> nat" where
  "digits_val s = foldl (\<lambda>acc c. 10 * acc + digit_val c) 0 s"

definition decimal_value :: "string \<Rightarrow> rat" where
  "decimal_value s =
     (let ip = takeWhile is_digit s;
          tl = dropWhile is_digit s
      in case tl of
           [] \<Rightarrow> of_nat (digits_val ip)
         | d # fp \<Rightarrow>
             if d = CHR ''.'' \<and> takeWhile is_digit fp \<noteq> []
             then of_nat (digits_val ip) +
                  of_nat (digits_val (takeWhile is_digit fp)) / 10 ^ length (takeWhile is_digit fp)
             else of_nat (digits_val ip))"

definition parseFloat :: "string \<Rightarrow> rat" where
  "parseFloat s = round_double (decimal_value s)"

section \<open>The condition parser\<close>

definition ABOVE_KEYWORDS :: "string list" where
  "ABOVE_KEYWORDS =
     [''exceed'', ''exceeds'', ''above'', ''over'', ''greater than'', ''more than'',
      ''reaches'', ''hits'', ''gets to'', ''goes above'', ''rises to'', ''climbs to'',
      ''surpasses'', ''passes'', ''breaks'', ''tops'', ''>'']"

definition BELOW_KEYWORDS :: "string list" where
  "BELOW_KEYWORDS =
     [''fall below'', ''below'', ''under'', ''less than'', ''drops to'', ''drops below'',
      ''falls to'', ''falls under'', ''dips to'', ''dips below'', ''sinks to'',
      ''declines to'', ''<'']"

definition YES_KEYWORDS :: "string list" where
  "YES_KEYWORDS = [''yes'', ''true'', ''will'', ''pass'', ''approve'', ''win'', ''happen'']"

definition NO_KEYWORDS :: "string list" where
  "NO_KEYWORDS =
     [''no'', ''false'', ''won'' @ [CHR 0x27] @ ''t'', ''fail'', ''reject'', ''lose'',
      ''doesn'' @ [CHR 0x27] @ ''t'']"

definition detectDirection :: "string \<Rightarrow> direction option" where
  "detectDirection text =
     (let lower = toLowerCase text
      in if \<exists>kw\<in>set BELOW_KEYWORDS. str_includes lower kw then Some Below
         else if \<exists>kw\<in>set ABOVE_KEYWORDS. str_includes lower kw then Some Above
         else None)"

text \<open>
  \<^verbatim>\<open>/\b(no outcome|"no"|'no'|\bno\b(?:\s+option|\s+side)?)/i\<close>
\<close>

definition explicit_no_re :: regex where
  "explicit_no_re =
     Seq WordB
       (Group 1
          (alts [lits ''no outcome'',
                 lits ([CHR 0x22] @ ''no'' @ [CHR 0x22]),
                 lits ([CHR 0x27] @ ''no'' @ [CHR 0x27]),
                 seqs [WordB, lits ''no'', WordB,
                       Opt (Alt (Seq (Plus Space) (lits ''option''))
                                (Seq (Plus Space) (lits ''side'')))]]))"

definition detectOutcome :: "string \<Rightarrow> string" where
  "detectOutcome text =
     (let lower = toLowerCase text
      in if test_re True explicit_no_re text then ''No''
         else if \<exists>kw\<in>set NO_KEYWORDS. str_includes lower kw then ''No''
         else ''Yes'')"

text \<open>\<^verbatim>\<open>(\d+(?:\.\d+)?)\<close> as group \<open>n\<close>, and \<^verbatim>\<open>(%|percent|cents?)\<close> as group \<open>n\<close>.\<close>

definition number_group :: "nat \<Rightarrow> regex" where
  "number_group n = Group n (Seq (Plus Digit) (Opt (Seq (Lit (CHR ''.'')) (Plus Digit))))"

definition unit_group :: "nat \<Rightarrow> regex" where
  "unit_group n =
     Group n (alts [Lit (CHR ''%''), lits ''percent'', Seq (lits ''cent'') (Opt (Lit (CHR ''s'')))])"

text \<open>
  A pattern of \<^verbatim>\<open>extractPercentage\<close>: the expression, its flag \<^verbatim>\<open>i\<close> and its
  source text, which the function inspects. The sources are written with \<^verbatim>\<open>/\<close> for
  the backslash.
\<close>

record pct_pattern =
  pct_regex :: regex
  pct_ci :: bool
  pct_source :: string

definition backslashes :: "string \<Rightarrow> string" where
  "backslashes s = map (\<lambda>c. if c = CHR ''/'' then CHR 0x5C else c) s"

definition pct_patterns :: "pct_pattern list" where
  "pct_patterns =
     [\<lparr>pct_regex = seqs [number_group 1, Star Space, Lit (CHR ''%'')], pct_ci = False,
       pct_source = backslashes ''(/d+(?:/./d+)?)/s*%''\<rparr>,
      \<lparr>pct_regex = seqs [number_group 1, Star Space, lits ''percent''], pct_ci = True,
       pct_source = backslashes ''(/d+(?:/./d+)?)/s*percent''\<rparr>,
      \<lparr>pct_regex = seqs [number_group 1, Star Space, lits ''cent'', Opt (Lit (CHR ''s''))],
       pct_ci = True,
       pct_source = backslashes ''(/d+(?:/./d+)?)/s*cents?''\<rparr>,
      \<lparr>pct_regex = seqs [Lit (CHR ''0''), Lit (CHR ''.''), Group 1 (Plus Digit)], pct_ci = False,
       pct_source = backslashes ''0/.(/d+)''\<rparr>,
      \<lparr>pct_regex = seqs [Lit (CHR ''.''), Group 1 (Plus Digit)], pct_ci = False,
       pct_source = backslashes ''/.(/d+)''\<rparr>]"

text \<open>A group of a match; the groups read by the code take part in every match.\<close>

definition group_text :: "(nat \<rightharpoonup> string) \<Rightarrow> nat \<Rightarrow> string" where
  "group_text m n = (case m n of None \<Rightarrow> [] | Some s \<Rightarrow> s)"

fun extractPercentage_loop :: "pct_pattern list \<Rightarrow> string \<Rightarrow> rat option" where
  "extractPercentage_loop [] text = None"
| "extractPercentage_loop (pattern # patterns) text =
     (case match_groups (pct_ci pattern) (pct_regex pattern) text of
        None \<Rightarrow> extractPercentage_loop patterns text
      | Some m \<Rightarrow>
          (let v = parseFloat (group_text m 1)
           in if str_includes (pct_source pattern) ''cents'' then Some v
              else if str_includes (pct_source pattern) (backslashes ''0/.'')
              then Some (js_times v 100)
              else Some v))"

definition extractPercentage :: "string \<Rightarrow> rat option" where
  "extractPercentage text = extractPercentage_loop pct_patterns text"

text \<open>
  The four patterns of \<^verbatim>\<open>parseAlertRequest\<close> with their extractors. An extractor
  gives the threshold, the direction if it finds one, and the outcome.
\<close>

datatype extractor = ByKeywords | BySign | AlwaysAbove

record parse_pattern =
  pp_regex :: regex
  pp_ci :: bool
  pp_extractor :: extractor

definition when_if_once :: regex where
  "when_if_once = alts [lits ''when'', lits ''if'', lits ''once'']"

text \<open>
  \<^verbatim>\<open>/(?:when|if|once)\s+(.+?)\s+(?:odds?|probability|chance|likelihood)\s+(?:to\s+)?(\w+(?:\s+\w+)*)\s+(\d+(?:\.\d+)?)\s*(%|percent|cents?)?/i\<close>
\<close>

definition pattern1 :: regex where
  "pattern1 =
     seqs [when_if_once, Plus Space, Group 1 (LazyPlus Dot), Plus Space,
           alts [Seq (lits ''odd'') (Opt (Lit (CHR ''s''))), lits ''probability'',
                 lits ''chance'', lits ''likelihood''],
           Plus Space, Opt (Seq (lits ''to'') (Plus Space)),
           Group 2 (Seq (Plus WordChar) (Star (Seq (Plus Space) (Plus WordChar)))),
           Plus Space, number_group 3, Star Space, Opt (unit_group 4)]"

text \<open>
  \<^verbatim>\<open>/(?:when|if|once)\s+(.+?)\s+(exceeds?|goes?\s+above|rises?\s+to|drops?\s+(?:to|below)|falls?\s+(?:to|below)|goes?\s+below)\s+(\d+(?:\.\d+)?)\s*(%|percent|cents?)?/i\<close>
\<close>

definition pattern2 :: regex where
  "pattern2 =
     seqs [when_if_once, Plus Space, Group 1 (LazyPlus Dot), Plus Space,
           Group 2
             (alts [Seq (lits ''exceed'') (Opt (Lit (CHR ''s''))),
                    seqs [lits ''goe'', Opt (Lit (CHR ''s'')), Plus Space, lits ''above''],
                    seqs [lits ''rise'', Opt (Lit (CHR ''s'')), Plus Space, lits ''to''],
                    seqs [lits ''drop'', Opt (Lit (CHR ''s'')), Plus Space,
                          Alt (lits ''to'') (lits ''below'')],
                    seqs [lits ''fall'', Opt (Lit (CHR ''s'')), Plus Space,
                          Alt (lits ''to'') (lits ''below'')],
                    seqs [lits ''goe'', Opt (Lit (CHR ''s'')), Plus Space, lits ''below'']]),
           Plus Space, number_group 3, Star Space, Opt (unit_group 4)]"

text \<open>\<^verbatim>\<open>/(.+?)\s*([<>])\s*(\d+(?:\.\d+)?)\s*(%|percent|cents?)?/\<close>\<close>

definition pattern3 :: regex where
  "pattern3 =
     seqs [Group 1 (LazyPlus Dot), Star Space, Group 2 (OneOf ''<>''), Star Space,
           number_group 3, Star Space, Opt (unit_group 4)]"

text \<open>\<^verbatim>\<open>/(.+?)\s+(hits?|reaches?|at|to)\s+(\d+(?:\.\d+)?)\s*(%|percent|cents?)?/i\<close>\<close>

definition pattern4 :: regex where
  "pattern4 =
     seqs [Group 1 (LazyPlus Dot), Plus Space,
           Group 2 (alts [Seq (lits ''hit'') (Opt (Lit (CHR ''s''))),
                          Seq (lits ''reache'') (Opt (Lit (CHR ''s''))),
                          lits ''at'', lits ''to'']),
           Plus Space, number_group 3, Star Space, Opt (unit_group 4)]"

definition parse_patterns :: "parse_pattern list" where
  "parse_patterns =
     [\<lparr>pp_regex = pattern1, pp_ci = True, pp_extractor = ByKeywords\<rparr>,
      \<lparr>pp_regex = pattern2, pp_ci = True, pp_extractor = ByKeywords\<rparr>,
      \<lparr>pp_regex = pattern3, pp_ci = False, pp_extractor = BySign\<rparr>,
      \<lparr>pp_regex = pattern4, pp_ci = True, pp_extractor = AlwaysAbove\<rparr>]"

fun run_extractor :: "extractor \<Rightarrow> (nat \<rightharpoonup> string) \<Rightarrow> rat \<times> direction option \<times> string" where
  "run_extractor ByKeywords m =
     (parseFloat (group_text m 3), detectDirection (group_text m 2), detectOutcome (group_text m 1))"
| "run_extractor BySign m =
     (parseFloat (group_text m 3),
      (if group_text m 2 = ''>'' then Some Above else Some Below),
      detectOutcome (group_text m 1))"
| "run_extractor AlwaysAbove m =
     (parseFloat (group_text m 3), Some Above, detectOutcome (group_text m 1))"

fun try_patterns :: "parse_pattern list \<Rightarrow> string \<Rightarrow> string \<Rightarrow> alertConfig option" where
  "try_patterns [] request url = None"
| "try_patterns (p # ps) request url =
     (case match_groups (pp_ci p) (pp_regex p) request of
        None \<Rightarrow> try_patterns ps request url
      | Some m \<Rightarrow>
          (case run_extractor (pp_extractor p) m of
             (th, None, oc) \<Rightarrow> try_patterns ps request url
           | (th, Some d, oc) \<Rightarrow>
               Some \<lparr>marketId = [], outcome = (if oc = [] then ''Yes'' else oc), threshold = th,
                     direction = d, notifyUrl = url\<rparr>))"

definition parseAlertRequest :: "string \<Rightarrow> string \<Rightarrow> alertConfig option" where
  "parseAlertRequest request url =
     (case try_patterns parse_patterns request url of
        Some config \<Rightarrow> Some config
      | None \<Rightarrow>
          (case (extractPercentage request, detectDirection request) of
             (Some percentage, Some d) \<Rightarrow>
               Some \<lparr>marketId = [], outcome = detectOutcome request, threshold = percentage,
                     direction = d, notifyUrl = url\<rparr>
           | _ \<Rightarrow> None))"

text \<open>\<^verbatim>\<open>/\s+(?:and|or|,|&|\|)\s+/i\<close>\<close>

definition conjunction_re :: regex where
  "conjunction_re =
     seqs [Plus Space,
           alts [lits ''and'', lits ''or'', Lit (CHR '',''), Lit (CHR ''&''), Lit (CHR ''|'')],
           Plus Space]"

definition parseMultiConditionAlert :: "string \<Rightarrow> string \<Rightarrow> alertConfig list" where
  "parseMultiConditionAlert request url =
     List.map_filter (\<lambda>part. parseAlertRequest (trim part) url)
       (split_re True conjunction_re request)"

text \<open>
  Stated from the specification, for comparison with \<^verbatim>\<open>detectOutcome\<close>: the text
  mentions the negative label explicitly when \<^verbatim>\<open>no\<close>, in either case, occurs with no
  word character next to it on either side. A quoted \<^verbatim>\<open>"no"\<close> is such an occurrence.
\<close>

definition word_bounded_no :: "string \<Rightarrow> bool" where
  "word_bounded_no text =
     (\<exists>pre x y post.
        text = pre @ x # y # post \<and> ascii_lower x = CHR ''n'' \<and> ascii_lower y = CHR ''o'' \<and>
        (pre = [] \<or> \<not> is_word (last pre)) \<and> (post = [] \<or> \<not> is_word (hd post)))"

section \<open>Properties of one step of the loop\<close>

lemma loop_body_skip_fired:
  "alertKey rt c \<in> set (triggeredAlerts s) \<Longrightarrow> loop_body rt e (s, a, t) c = (s, a, t)"
  by simp

lemma loop_body_skip_recent:
  "within_minute (now e) (lastCheckedOr0 s (marketId c)) \<Longrightarrow> loop_body rt e (s, a, t) c = (s, a, t)"
  by (simp add: Let_def)

lemma loop_body_cases:
  assumes "loop_body rt e (s, a, t) c = (s', a', t')"
  shows "(s' = s \<and> a' = a \<and> t' = t \<and>
          (alertKey rt c \<in> set (triggeredAlerts s) \<or>
           within_minute (now e) (lastCheckedOr0 s (marketId c)))) \<or>
         (alertKey rt c \<notin> set (triggeredAlerts s) \<and>
          \<not> within_minute (now e) (lastCheckedOr0 s (marketId c)) \<and>
          s' = s\<lparr>lastChecked := set_property (lastChecked s) (marketId c) (now e)\<rparr> \<and> a' = a \<and>
          (t' = t @ [Fetch c] \<or> (\<exists>p. t' = t @ [Fetch c, Notify c p False]))) \<or>
         (alertKey rt c \<notin> set (triggeredAlerts s) \<and>
          \<not> within_minute (now e) (lastCheckedOr0 s (marketId c)) \<and>
          (\<exists>p d. s' = s\<lparr>lastChecked := set_property (lastChecked s) (marketId c) (now e),
                         triggeredAlerts := triggeredAlerts s @ [alertKey rt c]\<rparr> \<and>
                 a' = a @ [d] \<and> t' = t @ [Fetch c, Notify c p True]))"
  using assms by (auto simp: Let_def split: if_splits option.splits)

lemma loop_body_shift:
  "loop_body rt e (s, a, t) c =
     (case loop_body rt e (s, [], []) c of (s', a2, t2) \<Rightarrow> (s', a @ a2, t @ t2))"
  by (simp add: Let_def split: option.splits)

lemma loop_body_once_inv:
  assumes "loop_body rt e (s, a, t) c = (s', a', t')" "once_inv rt k s t"
  shows "once_inv rt k s' t'"
  using loop_body_cases[OF assms(1)] assms(2)
  by (auto simp: once_inv_def split: if_splits)

lemma loop_body_mono:
  assumes "loop_body rt e (s, a, t) c = (s', a', t')"
  shows "set (triggeredAlerts s) \<subseteq> set (triggeredAlerts s')"
    and "alertConfigs s' = alertConfigs s"
  using loop_body_cases[OF assms(1)] by auto

lemma loop_body_quiet:
  assumes "loop_body rt e (s, a, t) c = (s', a', t')" "k \<in> set (triggeredAlerts s)"
    "\<forall>ev\<in>set t. \<not> concerns rt k ev"
  shows "\<forall>ev\<in>set t'. \<not> concerns rt k ev"
  using loop_body_cases[OF assms(1)] assms(2,3) by auto

lemma loop_body_lastChecked:
  assumes "loop_body rt e (s, a, t) c = (s', a', t')"
  shows "lastChecked s' m = lastChecked s m \<or> lastChecked s' m = Some (now e)"
    and "lastChecked s m = Some (now e) \<Longrightarrow> lastChecked s' m = Some (now e)"
  using loop_body_cases[OF assms(1)] by (auto simp: set_property_def)

declare loop_body.simps [simp del]

section \<open>Properties of one pass\<close>

lemma fold_step:
  obtains s1 a1 t1 where "loop_body rt e (s, a, t) c = (s1, a1, t1)"
    and "foldl (loop_body rt e) (s, a, t) (c # cs) = foldl (loop_body rt e) (s1, a1, t1) cs"
  by (cases "loop_body rt e (s, a, t) c") auto

lemma fold_shift:
  "foldl (loop_body rt e) (s, a, t) cs =
     (case foldl (loop_body rt e) (s, [], []) cs of (s', a2, t2) \<Rightarrow> (s', a @ a2, t @ t2))"
proof (induction cs arbitrary: s a t)
  case Nil
  show ?case by simp
next
  case (Cons c cs)
  obtain s1 a1 t1 where st: "loop_body rt e (s, [], []) c = (s1, a1, t1)"
    by (cases "loop_body rt e (s, [], []) c") auto
  have "loop_body rt e (s, a, t) c = (s1, a @ a1, t @ t1)"
    using loop_body_shift[of rt e s a t c] st by simp
  then have "foldl (loop_body rt e) (s, a, t) (c # cs) =
      foldl (loop_body rt e) (s1, a @ a1, t @ t1) cs" by simp
  also have "\<dots> = (case foldl (loop_body rt e) (s1, [], []) cs of
      (s', a2, t2) \<Rightarrow> (s', (a @ a1) @ a2, (t @ t1) @ t2))"
    by (rule Cons.IH)
  finally have lhs: "foldl (loop_body rt e) (s, a, t) (c # cs) =
      (case foldl (loop_body rt e) (s1, [], []) cs of
         (s', a2, t2) \<Rightarrow> (s', a @ a1 @ a2, t @ t1 @ t2))" by simp
  have "foldl (loop_body rt e) (s, [], []) (c # cs) = foldl (loop_body rt e) (s1, a1, t1) cs"
    using st by simp
  also have "\<dots> = (case foldl (loop_body rt e) (s1, [], []) cs of
      (s', a2, t2) \<Rightarrow> (s', a1 @ a2, t1 @ t2))"
    by (rule Cons.IH)
  finally show ?case using lhs by (simp split: prod.splits)
qed

lemma fold_once_inv:
  "foldl (loop_body rt e) (s, a, t) cs = (s', a', t') \<Longrightarrow> once_inv rt k s t \<Longrightarrow>
     once_inv rt k s' t'"
proof (induction cs arbitrary: s a t)
  case Nil
  then show ?case by simp
next
  case (Cons c cs)
  obtain s1 a1 t1 where st: "loop_body rt e (s, a, t) c = (s1, a1, t1)"
    and f: "foldl (loop_body rt e) (s, a, t) (c # cs) = foldl (loop_body rt e) (s1, a1, t1) cs"
    by (rule fold_step)
  from Cons.prems(1) f have "foldl (loop_body rt e) (s1, a1, t1) cs = (s', a', t')" by simp
  moreover from st Cons.prems(2) have "once_inv rt k s1 t1" by (rule loop_body_once_inv)
  ultimately show ?case by (rule Cons.IH)
qed

lemma fold_mono:
  "foldl (loop_body rt e) (s, a, t) cs = (s', a', t') \<Longrightarrow>
     set (triggeredAlerts s) \<subseteq> set (triggeredAlerts s') \<and> alertConfigs s' = alertConfigs s"
proof (induction cs arbitrary: s a t)
  case Nil
  then show ?case by simp
next
  case (Cons c cs)
  obtain s1 a1 t1 where st: "loop_body rt e (s, a, t) c = (s1, a1, t1)"
    and f: "foldl (loop_body rt e) (s, a, t) (c # cs) = foldl (loop_body rt e) (s1, a1, t1) cs"
    by (rule fold_step)
  from Cons.prems(1) f have "foldl (loop_body rt e) (s1, a1, t1) cs = (s', a', t')" by simp
  from Cons.IH[OF this] loop_body_mono[OF st] show ?case by auto
qed

lemma fold_quiet:
  "foldl (loop_body rt e) (s, a, t) cs = (s', a', t') \<Longrightarrow> k \<in> set (triggeredAlerts s) \<Longrightarrow>
     \<forall>ev\<in>set t. \<not> concerns rt k ev \<Longrightarrow> \<forall>ev\<in>set t'. \<not> concerns rt k ev"
proof (induction cs arbitrary: s a t)
  case Nil
  then show ?case by simp
next
  case (Cons c cs)
  obtain s1 a1 t1 where st: "loop_body rt e (s, a, t) c = (s1, a1, t1)"
    and f: "foldl (loop_body rt e) (s, a, t) (c # cs) = foldl (loop_body rt e) (s1, a1, t1) cs"
    by (rule fold_step)
  from Cons.prems(1) f have f': "foldl (loop_body rt e) (s1, a1, t1) cs = (s', a', t')" by simp
  from loop_body_mono(1)[OF st] Cons.prems(2) have k1: "k \<in> set (triggeredAlerts s1)" by auto
  from loop_body_quiet[OF st Cons.prems(2,3)] have "\<forall>ev\<in>set t1. \<not> concerns rt k ev" .
  from Cons.IH[OF f' k1 this] show ?case .
qed

lemma fold_lastChecked:
  "foldl (loop_body rt e) (s, a, t) cs = (s', a', t') \<Longrightarrow>
     (lastChecked s' m = lastChecked s m \<or> lastChecked s' m = Some (now e)) \<and>
     (lastChecked s m = Some (now e) \<longrightarrow> lastChecked s' m = Some (now e))"
proof (induction cs arbitrary: s a t)
  case Nil
  then show ?case by simp
next
  case (Cons c cs)
  obtain s1 a1 t1 where st: "loop_body rt e (s, a, t) c = (s1, a1, t1)"
    and f: "foldl (loop_body rt e) (s, a, t) (c # cs) = foldl (loop_body rt e) (s1, a1, t1) cs"
    by (rule fold_step)
  from Cons.prems(1) f have f': "foldl (loop_body rt e) (s1, a1, t1) cs = (s', a', t')" by simp
  from Cons.IH[OF f'] loop_body_lastChecked[OF st, of m] show ?case by auto
qed

section \<open>Properties of a process\<close>

lemma apply_op_inv:
  assumes "apply_op rt (s, tr) x = (s', tr')" "once_inv rt k s tr"
  shows "once_inv rt k s' tr'"
proof (cases x)
  case (RunPass e)
  obtain s1 a1 t1 where ex: "executeWorkflow rt e s = (s1, a1, t1)"
    by (cases "executeWorkflow rt e s") auto
  with assms(1) RunPass have eq: "s' = s1" "tr' = tr @ t1" by auto
  have "foldl (loop_body rt e) (s, [], tr) (alertConfigs s) = (s1, a1, tr @ t1)"
    using fold_shift[of rt e s "[]" tr "alertConfigs s"] ex
    by (simp add: executeWorkflow_def)
  from fold_once_inv[OF this assms(2)] eq show ?thesis by simp
next
  case (AddAlert c)
  with assms show ?thesis by (auto simp: once_inv_def)
next
  case (DeleteAlert i)
  with assms show ?thesis by (auto simp: once_inv_def split: if_splits)
qed

lemma apply_op_mono:
  assumes "apply_op rt (s, tr) x = (s', tr')"
  shows "set (triggeredAlerts s) \<subseteq> set (triggeredAlerts s')"
proof (cases x)
  case (RunPass e)
  obtain s1 a1 t1 where ex: "executeWorkflow rt e s = (s1, a1, t1)"
    by (cases "executeWorkflow rt e s") auto
  with assms RunPass have "s' = s1" by auto
  with fold_mono[of rt e s "[]" "[]" "alertConfigs s" s1 a1 t1] ex
  show ?thesis by (simp add: executeWorkflow_def)
next
  case (AddAlert c)
  with assms show ?thesis by auto
next
  case (DeleteAlert i)
  with assms show ?thesis by (auto split: if_splits)
qed

lemma apply_op_quiet:
  assumes "apply_op rt (s, tr) x = (s', tr')" "k \<in> set (triggeredAlerts s)"
    "\<forall>ev\<in>set tr. \<not> concerns rt k ev"
  shows "\<forall>ev\<in>set tr'. \<not> concerns rt k ev"
proof (cases x)
  case (RunPass e)
  obtain s1 a1 t1 where ex: "executeWorkflow rt e s = (s1, a1, t1)"
    by (cases "executeWorkflow rt e s") auto
  with assms(1) RunPass have eq: "s' = s1" "tr' = tr @ t1" by auto
  have "foldl (loop_body rt e) (s, [], tr) (alertConfigs s) = (s1, a1, tr @ t1)"
    using fold_shift[of rt e s "[]" tr "alertConfigs s"] ex
    by (simp add: executeWorkflow_def)
  from fold_quiet[OF this assms(2,3)] eq show ?thesis by simp
next
  case (AddAlert c)
  with assms show ?thesis by auto
next
  case (DeleteAlert i)
  with assms show ?thesis by (auto split: if_splits)
qed

lemma foldl_apply_op:
  "foldl (apply_op rt) (s, tr) ops = (s', tr') \<Longrightarrow>
     (once_inv rt k s tr \<longrightarrow> once_inv rt k s' tr') \<and>
     set (triggeredAlerts s) \<subseteq> set (triggeredAlerts s') \<and>
     (k \<in> set (triggeredAlerts s) \<and> (\<forall>ev\<in>set tr. \<not> concerns rt k ev) \<longrightarrow>
        (\<forall>ev\<in>set tr'. \<not> concerns rt k ev))"
proof (induction ops arbitrary: s tr)
  case Nil
  then show ?case by simp
next
  case (Cons x ops)
  obtain s1 tr1 where st: "apply_op rt (s, tr) x = (s1, tr1)"
    by (cases "apply_op rt (s, tr) x") auto
  with Cons.prems have f: "foldl (apply_op rt) (s1, tr1) ops = (s', tr')" by simp
  from Cons.IH[OF f] apply_op_inv[OF st] apply_op_mono[OF st] apply_op_quiet[OF st]
  show ?case by blast
qed

lemma fetched_append: "fetched (xs @ ys) = fetched xs @ fetched ys"
  by (induction xs rule: fetched.induct) auto

lemma notified_append: "notified (xs @ ys) = notified xs @ notified ys"
  by (induction xs rule: notified.induct) auto

lemma sent_ok_append: "sent_ok (xs @ ys) = sent_ok xs @ sent_ok ys"
  by (induction xs rule: sent_ok.induct) auto

lemma loop_body_poll_inv:
  assumes "loop_body rt e (s, a, t) c = (s', a', t')" "poll_inv e s t"
  shows "poll_inv e s' t'"
proof -
  have fresh: "\<forall>c'\<in>set (fetched t). recorded c' \<longrightarrow> marketId c' \<noteq> marketId c"
    if "\<not> within_minute (now e) (lastCheckedOr0 s (marketId c))"
  proof (intro ballI impI notI)
    fix c'
    assume "c' \<in> set (fetched t)" "recorded c'" "marketId c' = marketId c"
    with assms(2) have "lastChecked s (marketId c) = Some (now e)"
      by (auto simp: poll_inv_def)
    then have "within_minute (now e) (lastCheckedOr0 s (marketId c))"
      by (simp add: lastCheckedOr0_def get_property_def within_minute_def)
    with that show False by simp
  qed
  from loop_body_cases[OF assms(1)]
  consider (skip) "s' = s" "t' = t"
    | (poll) tl where "\<not> within_minute (now e) (lastCheckedOr0 s (marketId c))"
        "lastChecked s' = set_property (lastChecked s) (marketId c) (now e)"
        "t' = t @ Fetch c # tl" "tl = [] \<or> (\<exists>p b. tl = [Notify c p b])"
    by fastforce
  then show ?thesis
  proof cases
    case skip
    with assms(2) show ?thesis by simp
  next
    case poll
    from fresh[OF poll(1)] assms(2) poll(2,3,4) show ?thesis
      by (auto simp: poll_inv_def fetched_append notified_append subset_iff set_property_def
          recorded_def)
  qed
qed

lemma fold_poll_inv:
  "foldl (loop_body rt e) (s, a, t) cs = (s', a', t') \<Longrightarrow> poll_inv e s t \<Longrightarrow> poll_inv e s' t'"
proof (induction cs arbitrary: s a t)
  case Nil
  then show ?case by simp
next
  case (Cons c cs)
  obtain s1 a1 t1 where st: "loop_body rt e (s, a, t) c = (s1, a1, t1)"
    and f: "foldl (loop_body rt e) (s, a, t) (c # cs) = foldl (loop_body rt e) (s1, a1, t1) cs"
    by (rule fold_step)
  from Cons.prems(1) f have "foldl (loop_body rt e) (s1, a1, t1) cs = (s', a', t')" by simp
  moreover from st Cons.prems(2) have "poll_inv e s1 t1" by (rule loop_body_poll_inv)
  ultimately show ?case by (rule Cons.IH)
qed

lemma loop_body_gate_inv:
  assumes "loop_body rt e (s, a, t) c = (s', a', t')" "gate_inv rt s0 (s, a, t)"
  shows "gate_inv rt s0 (s', a', t')"
  using loop_body_cases[OF assms(1)] assms(2)
  by (auto simp: gate_inv_def sent_ok_append)

lemma fold_gate_inv:
  "foldl (loop_body rt e) (s, a, t) cs = (s', a', t') \<Longrightarrow> gate_inv rt s0 (s, a, t) \<Longrightarrow>
     gate_inv rt s0 (s', a', t')"
proof (induction cs arbitrary: s a t)
  case Nil
  then show ?case by simp
next
  case (Cons c cs)
  obtain s1 a1 t1 where st: "loop_body rt e (s, a, t) c = (s1, a1, t1)"
    and f: "foldl (loop_body rt e) (s, a, t) (c # cs) = foldl (loop_body rt e) (s1, a1, t1) cs"
    by (rule fold_step)
  from Cons.prems(1) f have "foldl (loop_body rt e) (s1, a1, t1) cs = (s', a', t')" by simp
  moreover from st Cons.prems(2) have "gate_inv rt s0 (s1, a1, t1)" by (rule loop_body_gate_inv)
  ultimately show ?case by (rule Cons.IH)
qed

lemma loop_body_met:
  assumes "alertKey rt c \<notin> set (triggeredAlerts s)"
    "\<not> within_minute (now e) (lastCheckedOr0 s (marketId c))"
    "fetchMarketData e (marketId c) = Some m" "active m" "\<not> closed_flag m"
    "checkAlertCondition m c"
  shows "loop_body rt e (s, a, t) c =
     (let p = js_times (case find_token m c of None \<Rightarrow> 0 | Some tok \<Rightarrow> price tok) 100;
          s1 = s\<lparr>lastChecked := set_property (lastChecked s) (marketId c) (now e)\<rparr>
      in if sendAlert e c m p
         then (s1\<lparr>triggeredAlerts := triggeredAlerts s @ [alertKey rt c]\<rparr>,
               a @ [alert_text rt m c p], t @ [Fetch c, Notify c p True])
         else (s1, a, t @ [Fetch c, Notify c p False]))"
  using assms by (simp add: loop_body.simps Let_def)

lemma loop_body_unavailable:
  assumes "alertKey rt c \<notin> set (triggeredAlerts s)"
    "\<not> within_minute (now e) (lastCheckedOr0 s (marketId c))"
    "fetchMarketData e (marketId c) = None \<or>
     (\<exists>m. fetchMarketData e (marketId c) = Some m \<and> (\<not> active m \<or> closed_flag m))"
  shows "loop_body rt e (s, a, t) c =
     (s\<lparr>lastChecked := set_property (lastChecked s) (marketId c) (now e)\<rparr>, a, t @ [Fetch c])"
  using assms by (auto simp: loop_body.simps Let_def)

lemma fetchMarketData_None:
  "fetchMarketData e mid = None \<longleftrightarrow>
     (http_get e mid = GetThrows \<or> (\<exists>b. http_get e mid = GetResponse False b) \<or>
      http_get e mid = GetResponse True BadJson \<or>
      http_get e mid = GetResponse True (Json None))"
  by (auto simp: fetchMarketData_def split: get_result.splits json_body.splits)

lemma fold_outcome:
  "foldl (loop_body rt e) (s, a, t) cs = (s', a', t') \<Longrightarrow> c \<in> set cs \<Longrightarrow> recorded c \<Longrightarrow>
     alertKey rt c \<in> set (triggeredAlerts s') \<or>
     lastChecked s' (marketId c) = Some (now e) \<or>
     (lastChecked s' (marketId c) = lastChecked s (marketId c) \<and>
      alertKey rt c \<notin> set (triggeredAlerts s) \<and>
      within_minute (now e) (lastCheckedOr0 s (marketId c)))"
proof (induction cs arbitrary: s a t)
  case Nil
  then show ?case by simp
next
  case (Cons c0 cs)
  obtain s1 a1 t1 where st: "loop_body rt e (s, a, t) c0 = (s1, a1, t1)"
    and f: "foldl (loop_body rt e) (s, a, t) (c0 # cs) = foldl (loop_body rt e) (s1, a1, t1) cs"
    by (rule fold_step)
  from Cons.prems(1) f have f': "foldl (loop_body rt e) (s1, a1, t1) cs = (s', a', t')" by simp
  note lc = fold_lastChecked[OF f', of "marketId c"]
  note mono = fold_mono[OF f']
  from loop_body_cases[OF st]
  consider (skip) "s1 = s" "alertKey rt c0 \<in> set (triggeredAlerts s) \<or>
                            within_minute (now e) (lastCheckedOr0 s (marketId c0))"
    | (poll) "lastChecked s1 = set_property (lastChecked s) (marketId c0) (now e)"
    by fastforce
  then show ?case
  proof cases
    case skip
    show ?thesis
    proof (cases "c = c0")
      case True
      with skip lc mono show ?thesis by auto
    next
      case False
      with Cons.prems(2) have "c \<in> set cs" by simp
      from Cons.IH[OF f' this Cons.prems(3)] skip(1) show ?thesis by simp
    qed
  next
    case poll
    show ?thesis
    proof (cases "marketId c = marketId c0")
      case True
      with poll Cons.prems(3) have "lastChecked s1 (marketId c) = Some (now e)"
        by (simp add: set_property_def recorded_def)
      with lc show ?thesis by simp
    next
      case False
      with Cons.prems(2) have "c \<in> set cs" by auto
      from False poll have same: "lastChecked s1 (marketId c) = lastChecked s (marketId c)"
        by (simp add: set_property_def)
      then have "lastCheckedOr0 s1 (marketId c) = lastCheckedOr0 s (marketId c)"
        by (simp add: lastCheckedOr0_def get_property_def)
      with Cons.IH[OF f' \<open>c \<in> set cs\<close> Cons.prems(3)] same loop_body_mono(1)[OF st]
      show ?thesis by auto
    qed
  qed
qed

lemma fold_all_skipped:
  "\<forall>c\<in>set cs. alertKey rt c \<in> set (triggeredAlerts s) \<or>
       within_minute (now e) (lastCheckedOr0 s (marketId c)) \<Longrightarrow>
   foldl (loop_body rt e) (s, a, t) cs = (s, a, t)"
proof (induction cs)
  case Nil
  show ?case by simp
next
  case (Cons c cs)
  then have "loop_body rt e (s, a, t) c = (s, a, t)"
    using loop_body_skip_fired loop_body_skip_recent by auto
  with Cons show ?case by simp
qed

lemma split_at_sep:
  "x \<notin> set a \<Longrightarrow> x \<notin> set b \<Longrightarrow> a @ x # r = b @ x # r' \<Longrightarrow> a = b \<and> r = r'"
proof (induction a arbitrary: b)
  case Nil
  then show ?case by (cases b) auto
next
  case (Cons y a)
  then show ?case by (cases b) auto
qed

lemma direction_str_inj: "direction_str d = direction_str d' \<Longrightarrow> d = d'"
  by (cases d; cases d') (simp_all add: direction_str_def)

lemma direction_str_length: "length (direction_str d) = 5"
  by (cases d) (simp_all add: direction_str_def)

lemma split_before_direction:
  assumes "t1 @ CHR ''-'' # direction_str d1 = t2 @ CHR ''-'' # direction_str d2"
  shows "t1 = t2" and "d1 = d2"
proof -
  from assms have "length (t1 @ CHR ''-'' # direction_str d1) =
      length (t2 @ CHR ''-'' # direction_str d2)" by simp
  then have "length t1 = length t2" by (simp add: direction_str_length)
  with assms show "t1 = t2" by simp
  with assms show "d1 = d2" by (simp add: direction_str_inj)
qed


section \<open>Claims about the evaluation engine\<close>

text \<open>
  C1. At-most-once firing. Over any sequence of passes and edits from any state, the
  trace holds at most one successful delivery for a key; the fired list only grows;
  when the key is in the fired list at the start, no fetch and no webhook call is made
  for a condition with that key, and the loop body returns at once for it.
\<close>

theorem fired_at_most_once:
  "length (filter (delivered rt k) (snd (run_ops rt s ops))) \<le> 1 \<and>
   set (triggeredAlerts s) \<subseteq> set (triggeredAlerts (fst (run_ops rt s ops))) \<and>
   (k \<in> set (triggeredAlerts s) \<longrightarrow>
      (\<forall>ev\<in>set (snd (run_ops rt s ops)). \<not> concerns rt k ev)) \<and>
   (alertKey rt c \<in> set (triggeredAlerts s) \<longrightarrow> loop_body rt e (s, a, t) c = (s, a, t))"
proof -
  obtain s' tr where r: "foldl (apply_op rt) (s, []) ops = (s', tr)"
    by (cases "foldl (apply_op rt) (s, []) ops") auto
  have "once_inv rt k s []" by (simp add: once_inv_def)
  with foldl_apply_op[OF r, of k] r loop_body_skip_fired[of rt c s e a t]
  show ?thesis by (simp add: run_ops_def once_inv_def)
qed

theorem fired_at_most_once_witness:
  "''M-Yes-60-above'' \<in> set (triggeredAlerts (state_of [config_M, config_N] [''M-Yes-60-above''])) \<and>
   alertKey sample_runtime config_M = ''M-Yes-60-above'' \<and>
   snd (run_ops sample_runtime (state_of [config_M, config_N] [''M-Yes-60-above''])
     [RunPass (env_ok 100000), AddAlert config_M, RunPass (env_ok 400000)]) =
     [Fetch config_N, Notify config_N 35 True] \<and>
   filter (concerns sample_runtime ''M-Yes-60-above'')
     (snd (run_ops sample_runtime (state_of [config_M, config_N] [''M-Yes-60-above''])
       [RunPass (env_ok 100000), AddAlert config_M, RunPass (env_ok 400000)])) = [] \<and>
   loop_body sample_runtime (env_ok 100000)
     (state_of [config_M, config_N] [''M-Yes-60-above''], [], []) config_M =
     (state_of [config_M, config_N] [''M-Yes-60-above''], [], [])"
proof -
  have k: "''M-Yes-60-above'' \<in> set (triggeredAlerts (state_of [config_M, config_N] [''M-Yes-60-above'']))"
    by (simp add: state_of_def)
  have key: "alertKey sample_runtime config_M = ''M-Yes-60-above''"
    by code_simp
  have tr: "snd (run_ops sample_runtime (state_of [config_M, config_N] [''M-Yes-60-above''])
     [RunPass (env_ok 100000), AddAlert config_M, RunPass (env_ok 400000)]) =
     [Fetch config_N, Notify config_N 35 True]"
    by code_simp
  from fired_at_most_once[of sample_runtime "''M-Yes-60-above''"
      "state_of [config_M, config_N] [''M-Yes-60-above'']"
      "[RunPass (env_ok 100000), AddAlert config_M, RunPass (env_ok 400000)]"
      config_M "env_ok 100000" "[]" "[]"] k key tr
  show ?thesis by (simp add: filter_empty_conv)
qed



text \<open>
  C5. Firing is gated on the notifier. For a condition that is neither fired nor
  rate-limited, whose market is fetched, active and open, and whose threshold is met:
  when the webhook call succeeds the key is appended to the fired list and one
  description to the alerts; when it fails neither happens, only the poll timestamp
  changes, and a pass at least 60 seconds later fetches for the condition again. Over
  a whole pass, the keys added to the fired list are those of the successful webhook
  calls, in order, and there are as many descriptions.
\<close>

theorem firing_gated_on_notifier:
  assumes "alertKey rt c \<notin> set (triggeredAlerts s)"
    and "\<not> within_minute (now e) (lastCheckedOr0 s (marketId c))"
    and "fetchMarketData e (marketId c) = Some m" and "active m" and "\<not> closed_flag m"
    and "find_token m c = Some tok" and "checkAlertCondition m c"
  shows "loop_body rt e (s, a, t) c =
           (if sendAlert e c m (js_times (price tok) 100)
            then (s\<lparr>lastChecked := set_property (lastChecked s) (marketId c) (now e),
                    triggeredAlerts := triggeredAlerts s @ [alertKey rt c]\<rparr>,
                  a @ [alert_text rt m c (js_times (price tok) 100)],
                  t @ [Fetch c, Notify c (js_times (price tok) 100) True])
            else (s\<lparr>lastChecked := set_property (lastChecked s) (marketId c) (now e)\<rparr>, a,
                  t @ [Fetch c, Notify c (js_times (price tok) 100) False])) \<and>
         (\<not> sendAlert e c m (js_times (price tok) 100) \<and> \<not> now e2 - now e < 60000 \<longrightarrow>
            fetched (snd (snd (loop_body rt e2 (fst (loop_body rt e (s, a, t) c), a2, [])
              c))) = [c]) \<and>
         triggeredAlerts (fst (executeWorkflow rt e s0)) =
           triggeredAlerts s0 @ map (alertKey rt) (sent_ok (snd (snd (executeWorkflow rt e s0)))) \<and>
         length (fst (snd (executeWorkflow rt e s0))) =
           length (sent_ok (snd (snd (executeWorkflow rt e s0))))"
proof -
  let ?p = "js_times (price tok) 100"
  let ?s1 = "s\<lparr>lastChecked := set_property (lastChecked s) (marketId c) (now e)\<rparr>"
  have step: "loop_body rt e (s, a, t) c =
           (if sendAlert e c m ?p
            then (?s1\<lparr>triggeredAlerts := triggeredAlerts s @ [alertKey rt c]\<rparr>,
                  a @ [alert_text rt m c ?p], t @ [Fetch c, Notify c ?p True])
            else (?s1, a, t @ [Fetch c, Notify c ?p False]))"
    using loop_body_met[OF assms(1,2,3,4,5,7), of a t] assms(6) by (simp add: Let_def)
  have retry: "fetched (snd (snd (loop_body rt e2 (fst (loop_body rt e (s, a, t) c), a2, [])
              c))) = [c]"
    if "\<not> sendAlert e c m ?p" "\<not> now e2 - now e < 60000"
  proof -
    from that(1) step have eq: "fst (loop_body rt e (s, a, t) c) = ?s1" by simp
    have nf: "alertKey rt c \<notin> set (triggeredAlerts ?s1)" using assms(1) by simp
    have nr: "\<not> within_minute (now e2) (lastCheckedOr0 ?s1 (marketId c))"
      using that(2)
      by (cases "marketId c = ''__proto__''"; cases "lastChecked s (marketId c)")
        (auto simp: lastCheckedOr0_def get_property_def set_property_def within_minute_def
          object_prototype_names_def)
    obtain s2 a' t' where r: "loop_body rt e2 (?s1, a2, []) c = (s2, a', t')"
      by (cases "loop_body rt e2 (?s1, a2, []) c") auto
    from loop_body_cases[OF r] nf nr have "fetched t' = [c]" by auto
    with r eq show ?thesis by simp
  qed
  obtain s' a' t' where ex: "foldl (loop_body rt e) (s0, [], []) (alertConfigs s0) = (s', a', t')"
    by (cases "foldl (loop_body rt e) (s0, [], []) (alertConfigs s0)") auto
  have "gate_inv rt s0 (s0, [], [])" by (simp add: gate_inv_def)
  from fold_gate_inv[OF ex this] ex
  have pass: "triggeredAlerts (fst (executeWorkflow rt e s0)) =
           triggeredAlerts s0 @ map (alertKey rt) (sent_ok (snd (snd (executeWorkflow rt e s0))))"
    "length (fst (snd (executeWorkflow rt e s0))) =
           length (sent_ok (snd (snd (executeWorkflow rt e s0))))"
    by (simp_all add: gate_inv_def executeWorkflow_def)
  from step retry pass show ?thesis by blast
qed


theorem firing_gated_on_notifier_witness:
  "alertKey sample_runtime config_M \<notin> set (triggeredAlerts (state_of [config_M] [])) \<and>
   \<not> within_minute (now (env_down 100000)) (lastCheckedOr0 (state_of [config_M] []) (marketId config_M)) \<and>
   fetchMarketData (env_down 100000) (marketId config_M) = Some market_M \<and>
   active market_M \<and> \<not> closed_flag market_M \<and>
   find_token market_M config_M = Some token_65 \<and> checkAlertCondition market_M config_M \<and>
   \<not> sendAlert (env_down 100000) config_M market_M (js_times (price token_65) 100) \<and>
   \<not> now (env_ok 160000) - now (env_down 100000) < 60000 \<and>
   triggeredAlerts (fst (loop_body sample_runtime (env_down 100000)
     (state_of [config_M] [], [], []) config_M)) = [] \<and>
   fst (snd (loop_body sample_runtime (env_down 100000)
     (state_of [config_M] [], [], []) config_M)) = [] \<and>
   fetched (snd (snd (loop_body sample_runtime (env_ok 160000)
     (fst (loop_body sample_runtime (env_down 100000) (state_of [config_M] [], [], []) config_M),
      [], []) config_M))) = [config_M]"
proof -
  have h1: "alertKey sample_runtime config_M \<notin> set (triggeredAlerts (state_of [config_M] []))"
    by code_simp
  have h2: "\<not> within_minute (now (env_down 100000)) (lastCheckedOr0 (state_of [config_M] []) (marketId config_M))"
    by code_simp
  have h3: "fetchMarketData (env_down 100000) (marketId config_M) = Some market_M"
    by code_simp
  have h4: "active market_M" and h5: "\<not> closed_flag market_M"
    by (simp_all add: market_M_def)
  have h6: "find_token market_M config_M = Some token_65"
    by code_simp
  have h7: "checkAlertCondition market_M config_M"
    by code_simp
  have h8: "\<not> sendAlert (env_down 100000) config_M market_M (js_times (price token_65) 100)"
    by (simp add: sendAlert_def env_down_def)
  have h9: "\<not> now (env_ok 160000) - now (env_down 100000) < 60000"
    by (simp add: env_ok_def env_down_def)
  note th = firing_gated_on_notifier[OF h1 h2 h3 h4 h5 h6 h7, of "[]" "[]" "env_ok 160000" "[]"]
  from th h8 have step: "loop_body sample_runtime (env_down 100000)
      (state_of [config_M] [], [], []) config_M =
      ((state_of [config_M] [])\<lparr>lastChecked :=
          set_property (lastChecked (state_of [config_M] [])) (marketId config_M)
            (now (env_down 100000))\<rparr>,
       [], [] @ [Fetch config_M, Notify config_M (js_times (price token_65) 100) False])"
    by presburger
  from step have c1: "triggeredAlerts (fst (loop_body sample_runtime (env_down 100000)
      (state_of [config_M] [], [], []) config_M)) = []"
    by (simp add: state_of_def)
  from step have c2: "fst (snd (loop_body sample_runtime (env_down 100000)
      (state_of [config_M] [], [], []) config_M)) = []"
    by simp
  from th h8 h9 have c3: "fetched (snd (snd (loop_body sample_runtime (env_ok 160000)
     (fst (loop_body sample_runtime (env_down 100000) (state_of [config_M] [], [], []) config_M),
      [], []) config_M))) = [config_M]"
    by blast
  from h1 h2 h3 h4 h5 h6 h7 h8 h9 c1 c2 c3 show ?thesis by blast
qed

text \<open>
  C6. Transient skip. For a condition that is neither fired nor rate-limited, when the
  fetch gives nothing (the call throws, the status is not ok, the body does not decode
  or is null) or the market is inactive or closed, the loop body changes only the poll
  timestamp of the market, the key stays out of the fired list, and the loop goes on
  with the remaining conditions from that state.
\<close>

theorem transient_skip_isolated:
  assumes "alertKey rt c \<notin> set (triggeredAlerts s)"
    and "\<not> within_minute (now e) (lastCheckedOr0 s (marketId c))"
    and "fetchMarketData e (marketId c) = None \<or>
         (\<exists>m. fetchMarketData e (marketId c) = Some m \<and> (\<not> active m \<or> closed_flag m))"
  shows "loop_body rt e (s, a, t) c =
           (s\<lparr>lastChecked := set_property (lastChecked s) (marketId c) (now e)\<rparr>, a, t @ [Fetch c]) \<and>
         alertKey rt c \<notin> set (triggeredAlerts (fst (loop_body rt e (s, a, t) c))) \<and>
         foldl (loop_body rt e) (s, a, t) (c # cs) =
           foldl (loop_body rt e)
             (s\<lparr>lastChecked := set_property (lastChecked s) (marketId c) (now e)\<rparr>, a, t @ [Fetch c]) cs \<and>
         foldl (loop_body rt e) acc (pre @ c # cs) =
           foldl (loop_body rt e) (loop_body rt e (foldl (loop_body rt e) acc pre) c) cs \<and>
         (fetchMarketData e mid = None \<longleftrightarrow>
            (http_get e mid = GetThrows \<or> (\<exists>b. http_get e mid = GetResponse False b) \<or>
             http_get e mid = GetResponse True BadJson \<or>
             http_get e mid = GetResponse True (Json None)))"
proof -
  note step = loop_body_unavailable[OF assms, of a t]
  have "alertKey rt c \<notin> set (triggeredAlerts (fst (loop_body rt e (s, a, t) c)))"
    using step assms(1) by simp
  moreover have "foldl (loop_body rt e) (s, a, t) (c # cs) =
           foldl (loop_body rt e)
             (s\<lparr>lastChecked := set_property (lastChecked s) (marketId c) (now e)\<rparr>, a, t @ [Fetch c]) cs"
    using step by simp
  moreover have "foldl (loop_body rt e) acc (pre @ c # cs) =
           foldl (loop_body rt e) (loop_body rt e (foldl (loop_body rt e) acc pre) c) cs"
    by simp
  ultimately show ?thesis using step fetchMarketData_None[of e mid] by blast
qed

theorem transient_skip_isolated_witness:
  "alertKey sample_runtime config_C \<notin> set (triggeredAlerts (state_of [config_C, config_N] [])) \<and>
   \<not> within_minute (now (env_ok 100000)) (lastCheckedOr0 (state_of [config_C, config_N] []) (marketId config_C)) \<and>
   fetchMarketData (env_ok 100000) (marketId config_C) = Some market_C \<and> closed_flag market_C \<and>
   fetchMarketData (env_ok 100000) ''unknown'' = None \<and>
   snd (snd (loop_body sample_runtime (env_ok 100000)
     (state_of [config_C, config_N] [], [], []) config_C)) = [Fetch config_C] \<and>
   alertKey sample_runtime config_C \<notin> set (triggeredAlerts (fst (loop_body sample_runtime
     (env_ok 100000) (state_of [config_C, config_N] [], [], []) config_C))) \<and>
   snd (snd (executeWorkflow sample_runtime (env_ok 100000) (state_of [config_C, config_N] []))) =
     [Fetch config_C, Fetch config_N, Notify config_N 35 True]"
proof -
  have h1: "alertKey sample_runtime config_C \<notin>
      set (triggeredAlerts (state_of [config_C, config_N] []))"
    by code_simp
  have h2: "\<not> within_minute (now (env_ok 100000)) (lastCheckedOr0 (state_of [config_C, config_N] []) (marketId config_C))"
    by code_simp
  have h3: "fetchMarketData (env_ok 100000) (marketId config_C) = Some market_C"
    by code_simp
  have h4: "closed_flag market_C"
    by (simp add: market_C_def)
  have h5: "fetchMarketData (env_ok 100000) ''unknown'' = None"
    by code_simp
  have h6: "snd (snd (executeWorkflow sample_runtime (env_ok 100000)
      (state_of [config_C, config_N] []))) = [Fetch config_C, Fetch config_N, Notify config_N 35 True]"
    by code_simp
  have h: "fetchMarketData (env_ok 100000) (marketId config_C) = None \<or>
      (\<exists>m. fetchMarketData (env_ok 100000) (marketId config_C) = Some m \<and>
           (\<not> active m \<or> closed_flag m))"
    using h3 h4 by simp
  from transient_skip_isolated[OF h1 h2 h, of "[]" "[]" "[config_N]" "(state_of [] [], [], [])" "[]"
      "''unknown''"] h1 h2 h3 h4 h5 h6
  show ?thesis by simp
qed

text \<open>
  For every market id other than \<^verbatim>\<open>__proto__\<close>, a pass issues at most one fetch and
  at most one webhook call: the poll timestamp of a fetched market is the time of the
  pass, and a condition whose market carries that timestamp is skipped by the loop body.
\<close>

lemma one_fetch_per_recorded_market:
  "distinct (map marketId (filter recorded (fetched (snd (snd (executeWorkflow rt e s)))))) \<and>
   distinct (map marketId (filter recorded (notified (snd (snd (executeWorkflow rt e s)))))) \<and>
   set (notified (snd (snd (executeWorkflow rt e s)))) \<subseteq>
     set (fetched (snd (snd (executeWorkflow rt e s)))) \<and>
   (\<forall>c\<in>set (fetched (snd (snd (executeWorkflow rt e s)))). recorded c \<longrightarrow>
      lastChecked (fst (executeWorkflow rt e s)) (marketId c) = Some (now e)) \<and>
   (lastChecked s' (marketId c2) = Some (now e) \<longrightarrow> loop_body rt e (s', a, t) c2 = (s', a, t))"
proof -
  obtain s1 a1 t1 where ex: "foldl (loop_body rt e) (s, [], []) (alertConfigs s) = (s1, a1, t1)"
    by (cases "foldl (loop_body rt e) (s, [], []) (alertConfigs s)") auto
  have "poll_inv e s []" by (simp add: poll_inv_def)
  from fold_poll_inv[OF ex this] ex
  have "distinct (map marketId (filter recorded (fetched (snd (snd (executeWorkflow rt e s)))))) \<and>
   distinct (map marketId (filter recorded (notified (snd (snd (executeWorkflow rt e s)))))) \<and>
   set (notified (snd (snd (executeWorkflow rt e s)))) \<subseteq>
     set (fetched (snd (snd (executeWorkflow rt e s)))) \<and>
   (\<forall>c\<in>set (fetched (snd (snd (executeWorkflow rt e s)))). recorded c \<longrightarrow>
      lastChecked (fst (executeWorkflow rt e s)) (marketId c) = Some (now e))"
    by (simp add: poll_inv_def executeWorkflow_def)
  moreover have "loop_body rt e (s', a, t) c2 = (s', a, t)"
    if "lastChecked s' (marketId c2) = Some (now e)"
    using that loop_body_skip_recent[of e s' c2 rt a t]
    by (simp add: lastCheckedOr0_def get_property_def within_minute_def)
  ultimately show ?thesis by blast
qed

text \<open>
  C10. One fetch per market id in a pass, at the market id \<^verbatim>\<open>__proto__\<close>. The
  assignment of the poll timestamp to \<^verbatim>\<open>state.lastChecked["__proto__"]\<close> stores
  nothing and the read gives an object, so the rate limit never holds for this market:
  two conditions on it are both fetched, and both fire, in one pass.
\<close>

theorem proto_market_fetched_twice:
  "marketId config_P50 = marketId config_P \<and>
   snd (snd (executeWorkflow sample_runtime (env_ok 100000) (state_of [config_P, config_P50] []))) =
     [Fetch config_P, Notify config_P 65 True, Fetch config_P50, Notify config_P50 65 True] \<and>
   triggeredAlerts (fst (executeWorkflow sample_runtime (env_ok 100000)
     (state_of [config_P, config_P50] []))) = [''__proto__-Yes-60-above'', ''__proto__-Yes-50-above''] \<and>
   lastChecked (fst (executeWorkflow sample_runtime (env_ok 100000)
     (state_of [config_P, config_P50] []))) ''__proto__'' = None \<and>
   snd (snd (executeWorkflow sample_runtime (env_ok 100000) (state_of [config_M, config_M50] []))) =
     [Fetch config_M, Notify config_M 65 True]"
proof -
  have "marketId config_P50 = marketId config_P"
    by (simp add: config_P50_def)
  moreover have "snd (snd (executeWorkflow sample_runtime (env_ok 100000)
      (state_of [config_P, config_P50] []))) =
     [Fetch config_P, Notify config_P 65 True, Fetch config_P50, Notify config_P50 65 True]"
    by code_simp
  moreover have "triggeredAlerts (fst (executeWorkflow sample_runtime (env_ok 100000)
     (state_of [config_P, config_P50] []))) = [''__proto__-Yes-60-above'', ''__proto__-Yes-50-above'']"
    by code_simp
  moreover have "lastChecked (fst (executeWorkflow sample_runtime (env_ok 100000)
     (state_of [config_P, config_P50] []))) ''__proto__'' = None"
    by code_simp
  moreover have "snd (snd (executeWorkflow sample_runtime (env_ok 100000)
      (state_of [config_M, config_M50] []))) = [Fetch config_M, Notify config_M 65 True]"
    by code_simp
  ultimately show ?thesis by blast
qed

text \<open>
  C2. Idempotence, as claimed for every state, fails: a market last polled 59.999
  seconds before the first pass is skipped by it and polled by a second pass one
  millisecond later, which fires.
\<close>

theorem second_pass_fires_counterexample:
  "now (env_ok 61000) - now (env_ok 60999) < 60000 \<and>
   http_get (env_ok 61000) = http_get (env_ok 60999) \<and>
   fst (snd (executeWorkflow sample_runtime (env_ok 60999) state_recent)) = [] \<and>
   triggeredAlerts (fst (executeWorkflow sample_runtime (env_ok 60999) state_recent)) = [] \<and>
   fst (snd (executeWorkflow sample_runtime (env_ok 61000)
     (fst (executeWorkflow sample_runtime (env_ok 60999) state_recent)))) =
     [''Alert triggered: Will Trump win? - Yes at 65.0%''] \<and>
   triggeredAlerts (fst (executeWorkflow sample_runtime (env_ok 61000)
     (fst (executeWorkflow sample_runtime (env_ok 60999) state_recent)))) = [''M-Yes-60-above'']"
proof -
  have "now (env_ok 61000) - now (env_ok 60999) < 60000"
    and "http_get (env_ok 61000) = http_get (env_ok 60999)"
    by (simp_all add: env_ok_def)
  moreover have "fst (snd (executeWorkflow sample_runtime (env_ok 60999) state_recent)) = []"
    by code_simp
  moreover have "triggeredAlerts (fst (executeWorkflow sample_runtime (env_ok 60999)
      state_recent)) = []"
    by code_simp
  moreover have "fst (snd (executeWorkflow sample_runtime (env_ok 61000)
     (fst (executeWorkflow sample_runtime (env_ok 60999) state_recent)))) =
     [''Alert triggered: Will Trump win? - Yes at 65.0%'']"
    by code_simp
  moreover have "triggeredAlerts (fst (executeWorkflow sample_runtime (env_ok 61000)
     (fst (executeWorkflow sample_runtime (env_ok 60999) state_recent)))) = [''M-Yes-60-above'']"
    by code_simp
  ultimately show ?thesis by blast
qed

text \<open>
  C2, amended. When the second pass starts less than 60 seconds after the first, and
  no condition not yet fired is rate-limited at the first pass but no longer at the
  second (its market's 60 seconds, counted from a poll before the first pass, do not
  end between the two passes), and no such condition has the market id \<^verbatim>\<open>__proto__\<close>,
  the second pass returns no alert, makes no call and leaves the state, hence the fired
  list, as the first pass left it.
\<close>

theorem second_pass_idle:
  assumes "now e2 - now e1 < 60000"
    and "\<forall>c\<in>set (alertConfigs s). alertKey rt c \<notin> set (triggeredAlerts s) \<longrightarrow>
           within_minute (now e1) (lastCheckedOr0 s (marketId c)) \<longrightarrow>
           within_minute (now e2) (lastCheckedOr0 s (marketId c))"
    and "\<forall>c\<in>set (alertConfigs s). alertKey rt c \<notin> set (triggeredAlerts s) \<longrightarrow>
           marketId c \<noteq> ''__proto__''"
  shows "executeWorkflow rt e2 (fst (executeWorkflow rt e1 s)) =
           (fst (executeWorkflow rt e1 s), [], [])"
proof -
  obtain s1 a1 t1 where ex: "foldl (loop_body rt e1) (s, [], []) (alertConfigs s) = (s1, a1, t1)"
    by (cases "foldl (loop_body rt e1) (s, [], []) (alertConfigs s)") auto
  then have s1: "fst (executeWorkflow rt e1 s) = s1" by (simp add: executeWorkflow_def)
  from fold_mono[OF ex] have cfg: "alertConfigs s1 = alertConfigs s"
    and mono: "set (triggeredAlerts s) \<subseteq> set (triggeredAlerts s1)" by simp_all
  have "\<forall>c\<in>set (alertConfigs s1). alertKey rt c \<in> set (triggeredAlerts s1) \<or>
       within_minute (now e2) (lastCheckedOr0 s1 (marketId c))"
  proof
    fix c
    assume "c \<in> set (alertConfigs s1)"
    with cfg have c: "c \<in> set (alertConfigs s)" by simp
    show "alertKey rt c \<in> set (triggeredAlerts s1) \<or>
       within_minute (now e2) (lastCheckedOr0 s1 (marketId c))"
    proof (cases "alertKey rt c \<in> set (triggeredAlerts s)")
      case True
      with mono show ?thesis by auto
    next
      case False
      with assms(3) c have "recorded c" by (simp add: recorded_def)
      from fold_outcome[OF ex c this]
      consider "alertKey rt c \<in> set (triggeredAlerts s1)"
        | "lastChecked s1 (marketId c) = Some (now e1)"
        | "lastChecked s1 (marketId c) = lastChecked s (marketId c)"
          "within_minute (now e1) (lastCheckedOr0 s (marketId c))"
        by blast
      then show ?thesis
      proof cases
        case 1
        then show ?thesis by simp
      next
        case 2
        with assms(1) show ?thesis
          by (simp add: lastCheckedOr0_def get_property_def within_minute_def)
      next
        case 3
        from 3(1) have "lastCheckedOr0 s1 (marketId c) = lastCheckedOr0 s (marketId c)"
          by (simp add: lastCheckedOr0_def get_property_def)
        with assms(2) c False 3(2) show ?thesis by simp
      qed
    qed
  qed
  from fold_all_skipped[OF this, of "[]" "[]"] s1 show ?thesis
    by (simp add: executeWorkflow_def)
qed

theorem second_pass_idle_witness:
  "now (env_ok 120000) - now (env_ok 100000) < 60000 \<and>
   alertConfigs state_waiting = [config_M, config_N] \<and>
   marketId config_M \<noteq> ''__proto__'' \<and> marketId config_N \<noteq> ''__proto__'' \<and>
   within_minute (now (env_ok 100000)) (lastCheckedOr0 state_waiting (marketId config_M)) \<and>
   within_minute (now (env_ok 120000)) (lastCheckedOr0 state_waiting (marketId config_M)) \<and>
   \<not> within_minute (now (env_ok 100000)) (lastCheckedOr0 state_waiting (marketId config_N)) \<and>
   snd (snd (executeWorkflow sample_runtime (env_ok 100000) state_waiting)) =
     [Fetch config_N, Notify config_N 35 True] \<and>
   executeWorkflow sample_runtime (env_ok 120000)
     (fst (executeWorkflow sample_runtime (env_ok 100000) state_waiting)) =
     (fst (executeWorkflow sample_runtime (env_ok 100000) state_waiting), [], [])"
proof -
  have h1: "now (env_ok 120000) - now (env_ok 100000) < 60000"
    by (simp add: env_ok_def)
  have h0: "alertConfigs state_waiting = [config_M, config_N]"
    by (simp add: state_waiting_def)
  have hp: "marketId config_M \<noteq> ''__proto__''" "marketId config_N \<noteq> ''__proto__''"
    by (simp_all add: config_M_def config_N_def)
  have h3: "within_minute (now (env_ok 100000)) (lastCheckedOr0 state_waiting (marketId config_M))"
    by code_simp
  have h4: "within_minute (now (env_ok 120000)) (lastCheckedOr0 state_waiting (marketId config_M))"
    by code_simp
  have h5: "\<not> within_minute (now (env_ok 100000))
      (lastCheckedOr0 state_waiting (marketId config_N))"
    by code_simp
  have h6: "snd (snd (executeWorkflow sample_runtime (env_ok 100000) state_waiting)) =
     [Fetch config_N, Notify config_N 35 True]"
    by code_simp
  have h2: "\<forall>c\<in>set (alertConfigs state_waiting).
      alertKey sample_runtime c \<notin> set (triggeredAlerts state_waiting) \<longrightarrow>
      within_minute (now (env_ok 100000)) (lastCheckedOr0 state_waiting (marketId c)) \<longrightarrow>
      within_minute (now (env_ok 120000)) (lastCheckedOr0 state_waiting (marketId c))"
    using h0 h3 h4 h5 by simp
  have h7: "\<forall>c\<in>set (alertConfigs state_waiting).
      alertKey sample_runtime c \<notin> set (triggeredAlerts state_waiting) \<longrightarrow>
      marketId c \<noteq> ''__proto__''"
    using h0 hp by simp
  from second_pass_idle[OF h1 h2 h7] h0 h1 hp h3 h4 h5 h6 show ?thesis by blast
qed

text \<open>
  C8. The key is the text \<^verbatim>\<open>marketId-outcome-threshold-direction\<close>, and two different
  tuples can give the same text: a hyphen may belong to the market id or to the
  outcome. The second condition is then never polled once the first has fired.
\<close>

theorem alertKey_collision_counterexample:
  "alertKey sample_runtime config_A = alertKey sample_runtime config_B \<and>
   (marketId config_A, outcome config_A, threshold config_A, direction config_A) \<noteq>
   (marketId config_B, outcome config_B, threshold config_B, direction config_B) \<and>
   snd (snd (executeWorkflow sample_runtime (env_ok 100000)
     (state_of [config_B] [alertKey sample_runtime config_A]))) = []"
proof -
  have "alertKey sample_runtime config_A = alertKey sample_runtime config_B"
    by code_simp
  moreover have "(marketId config_A, outcome config_A, threshold config_A, direction config_A) \<noteq>
      (marketId config_B, outcome config_B, threshold config_B, direction config_B)"
    by (simp add: config_A_def config_B_def)
  moreover have "snd (snd (executeWorkflow sample_runtime (env_ok 100000)
     (state_of [config_B] [alertKey sample_runtime config_A]))) = []"
    by code_simp
  ultimately show ?thesis by blast
qed

text \<open>
  C8, amended. Conditions with equal tuples (market id, outcome, threshold, direction)
  always have the same key. Conditions with the same key have equal tuples when no
  hyphen occurs in their market ids and outcomes and the two thresholds are rendered
  differently unless they are equal; the rendered thresholds may contain hyphens.
\<close>

theorem alertKey_identity:
  "((marketId c1, outcome c1, threshold c1, direction c1) =
    (marketId c2, outcome c2, threshold c2, direction c2) \<longrightarrow>
      alertKey rt c1 = alertKey rt c2) \<and>
   (CHR ''-'' \<notin> set (marketId c1) \<union> set (outcome c1) \<and>
    CHR ''-'' \<notin> set (marketId c2) \<union> set (outcome c2) \<and>
    (numToString rt (threshold c1) = numToString rt (threshold c2) \<longrightarrow>
       threshold c1 = threshold c2) \<longrightarrow>
    (alertKey rt c1 = alertKey rt c2) =
      ((marketId c1, outcome c1, threshold c1, direction c1) =
       (marketId c2, outcome c2, threshold c2, direction c2)))"
proof (intro conjI impI)
  assume "(marketId c1, outcome c1, threshold c1, direction c1) =
    (marketId c2, outcome c2, threshold c2, direction c2)"
  then show "alertKey rt c1 = alertKey rt c2" by (simp add: alertKey_def)
next
  assume h: "CHR ''-'' \<notin> set (marketId c1) \<union> set (outcome c1) \<and>
    CHR ''-'' \<notin> set (marketId c2) \<union> set (outcome c2) \<and>
    (numToString rt (threshold c1) = numToString rt (threshold c2) \<longrightarrow>
       threshold c1 = threshold c2)"
  show "(alertKey rt c1 = alertKey rt c2) =
      ((marketId c1, outcome c1, threshold c1, direction c1) =
       (marketId c2, outcome c2, threshold c2, direction c2))"
  proof
    assume k: "alertKey rt c1 = alertKey rt c2"
    let ?r1 = "outcome c1 @ ''-'' @ numToString rt (threshold c1) @ ''-'' @
        direction_str (direction c1)"
    let ?r2 = "outcome c2 @ ''-'' @ numToString rt (threshold c2) @ ''-'' @
        direction_str (direction c2)"
    from k have "marketId c1 @ CHR ''-'' # ?r1 = marketId c2 @ CHR ''-'' # ?r2"
      by (simp add: alertKey_def)
    with h have m: "marketId c1 = marketId c2" and r: "?r1 = ?r2"
      using split_at_sep[of "CHR ''-''" "marketId c1" "marketId c2" ?r1 ?r2] by auto
    let ?q1 = "numToString rt (threshold c1) @ ''-'' @ direction_str (direction c1)"
    let ?q2 = "numToString rt (threshold c2) @ ''-'' @ direction_str (direction c2)"
    from r have "outcome c1 @ CHR ''-'' # ?q1 = outcome c2 @ CHR ''-'' # ?q2" by simp
    with h have ou: "outcome c1 = outcome c2" and q: "?q1 = ?q2"
      using split_at_sep[of "CHR ''-''" "outcome c1" "outcome c2" ?q1 ?q2] by auto
    from q have "numToString rt (threshold c1) @ CHR ''-'' # direction_str (direction c1) =
        numToString rt (threshold c2) @ CHR ''-'' # direction_str (direction c2)" by simp
    from split_before_direction[OF this]
    have n: "numToString rt (threshold c1) = numToString rt (threshold c2)"
      and d: "direction c1 = direction c2" by simp_all
    from n h have "threshold c1 = threshold c2" by simp
    with m ou d
    show "(marketId c1, outcome c1, threshold c1, direction c1) =
       (marketId c2, outcome c2, threshold c2, direction c2)" by simp
  next
    assume "(marketId c1, outcome c1, threshold c1, direction c1) =
       (marketId c2, outcome c2, threshold c2, direction c2)"
    then show "alertKey rt c1 = alertKey rt c2" by (simp add: alertKey_def)
  qed
qed

theorem alertKey_identity_witness:
  "CHR ''-'' \<notin> set (marketId config_M) \<union> set (outcome config_M) \<and>
   CHR ''-'' \<notin> set (marketId config_neg) \<union> set (outcome config_neg) \<and>
   numToString sample_runtime (threshold config_neg) = ''-5'' \<and>
   numToString sample_runtime (threshold config_M) \<noteq>
      numToString sample_runtime (threshold config_neg) \<and>
   (marketId config_M, outcome config_M, threshold config_M, direction config_M) \<noteq>
   (marketId config_neg, outcome config_neg, threshold config_neg, direction config_neg) \<and>
   alertKey sample_runtime config_neg = ''M-Yes--5-above'' \<and>
   alertKey sample_runtime config_M \<noteq> alertKey sample_runtime config_neg \<and>
   alertKey sample_runtime (config_M\<lparr>notifyUrl := ''https://example.org/other''\<rparr>) =
     alertKey sample_runtime config_M"
proof -
  have h1: "CHR ''-'' \<notin> set (marketId config_M) \<union> set (outcome config_M)"
    by code_simp
  have h2: "CHR ''-'' \<notin> set (marketId config_neg) \<union> set (outcome config_neg)"
    by code_simp
  have h3: "numToString sample_runtime (threshold config_M) \<noteq>
      numToString sample_runtime (threshold config_neg)"
    by code_simp
  have h4: "(marketId config_M, outcome config_M, threshold config_M, direction config_M) \<noteq>
   (marketId config_neg, outcome config_neg, threshold config_neg, direction config_neg)"
    by (simp add: config_M_def config_neg_def)
  have h5: "(marketId (config_M\<lparr>notifyUrl := ''https://example.org/other''\<rparr>),
       outcome (config_M\<lparr>notifyUrl := ''https://example.org/other''\<rparr>),
       threshold (config_M\<lparr>notifyUrl := ''https://example.org/other''\<rparr>),
       direction (config_M\<lparr>notifyUrl := ''https://example.org/other''\<rparr>)) =
      (marketId config_M, outcome config_M, threshold config_M, direction config_M)"
    by simp
  have h6: "numToString sample_runtime (threshold config_neg) = ''-5''"
    "alertKey sample_runtime config_neg = ''M-Yes--5-above''"
    by code_simp+
  from alertKey_identity[of config_M config_neg sample_runtime]
    alertKey_identity[of "config_M\<lparr>notifyUrl := ''https://example.org/other''\<rparr>" config_M
      sample_runtime] h1 h2 h3 h4 h5 h6
  show ?thesis by blast
qed

section \<open>Properties of the matcher\<close>

lemma search_found:
  "search ci r p s \<noteq> None \<Longrightarrow>
     \<exists>pre suf p'. s = pre @ suf \<and> ms ci r \<lparr>prev = p', rest = suf, caps = []\<rparr> \<noteq> []"
proof (induction s arbitrary: p)
  case Nil
  then have "ms ci r \<lparr>prev = p, rest = [], caps = []\<rparr> \<noteq> []"
    by (simp split: list.splits)
  then have "([] :: string) = [] @ [] \<and> ms ci r \<lparr>prev = p, rest = [], caps = []\<rparr> \<noteq> []"
    by simp
  then show ?case by blast
next
  case (Cons c cs)
  show ?case
  proof (cases "ms ci r \<lparr>prev = p, rest = c # cs, caps = []\<rparr>")
    case Nil
    with Cons.prems have "search ci r (Some c) cs \<noteq> None" by (auto split: option.splits)
    from Cons.IH[OF this] obtain pre suf p' where
      "cs = pre @ suf" "ms ci r \<lparr>prev = p', rest = suf, caps = []\<rparr> \<noteq> []" by blast
    then have "c # cs = (c # pre) @ suf \<and> ms ci r \<lparr>prev = p', rest = suf, caps = []\<rparr> \<noteq> []"
      by simp
    then show ?thesis by blast
  next
    case (Cons st sts)
    then have "c # cs = [] @ (c # cs) \<and> ms ci r \<lparr>prev = p, rest = c # cs, caps = []\<rparr> \<noteq> []"
      by simp
    then show ?thesis by blast
  qed
qed

lemma search_finds:
  "ms ci r \<lparr>prev = (if pre = [] then p else Some (last pre)), rest = suf, caps = []\<rparr> \<noteq> [] \<Longrightarrow>
     search ci r p (pre @ suf) \<noteq> None"
proof (induction pre arbitrary: p)
  case Nil
  then show ?case by (cases suf) (auto split: list.splits)
next
  case (Cons c pre)
  have "ms ci r \<lparr>prev = (if pre = [] then Some c else Some (last pre)), rest = suf, caps = []\<rparr>
      \<noteq> []"
    using Cons.prems by (auto split: if_splits)
  from Cons.IH[OF this] show ?case by (auto split: list.splits option.splits)
qed

lemma search_None_split: "search ci r None s = None \<Longrightarrow> split_re ci r s = [s]"
  by (cases "length s") (simp_all add: split_re_def)

lemma starts_with_append: "starts_with s kw \<Longrightarrow> starts_with (s @ t) kw"
  by (induction s kw rule: starts_with.induct) auto

lemma str_includes_prepend: "str_includes s kw \<Longrightarrow> str_includes (pre @ s) kw"
  by (induction pre) auto

lemma str_includes_at: "starts_with s kw \<Longrightarrow> str_includes (pre @ s) kw"
  by (rule str_includes_prepend) (cases s; simp)

lemma ascii_lower_letter:
  assumes "ascii_lower x = char_of (k :: nat)" "97 \<le> k" "k \<le> 122"
  shows "x = char_of k \<or> x = char_of (k - 32)"
proof (cases "65 \<le> (of_char x :: nat) \<and> (of_char x :: nat) \<le> 90")
  case True
  with assms(1) have "char_of (of_char x + 32 :: nat) = char_of k"
    by (simp add: ascii_lower_def)
  then have "(of_char (char_of (of_char x + 32 :: nat) :: char) :: nat) = of_char (char_of k :: char)"
    by simp
  with True assms(2,3) have "(of_char x :: nat) = k - 32" by simp
  then have "char_of (of_char x :: nat) = char_of (k - 32)" by simp
  then show ?thesis by simp
next
  case False
  with assms(1) show ?thesis by (auto simp: ascii_lower_def Let_def)
qed

lemma ascii_lower_n: "ascii_lower x = CHR ''n'' \<Longrightarrow> x = CHR ''n'' \<or> x = CHR ''N''"
proof -
  assume h: "ascii_lower x = CHR ''n''"
  have a: "CHR ''n'' = char_of (110 :: nat)" and b: "char_of (110 - 32 :: nat) = CHR ''N''"
    by code_simp+
  from h a have eq: "ascii_lower x = char_of (110 :: nat)" by (simp only:)
  have "x = char_of (110 :: nat) \<or> x = char_of (110 - 32 :: nat)"
    by (rule ascii_lower_letter[OF eq]) simp_all
  then show ?thesis by (simp only: a[symmetric] b)
qed

lemma ascii_lower_o: "ascii_lower x = CHR ''o'' \<Longrightarrow> x = CHR ''o'' \<or> x = CHR ''O''"
proof -
  assume h: "ascii_lower x = CHR ''o''"
  have a: "CHR ''o'' = char_of (111 :: nat)" and b: "char_of (111 - 32 :: nat) = CHR ''O''"
    by code_simp+
  from h a have eq: "ascii_lower x = char_of (111 :: nat)" by (simp only:)
  have "x = char_of (111 :: nat) \<or> x = char_of (111 - 32 :: nat)"
    by (rule ascii_lower_letter[OF eq]) simp_all
  then show ?thesis by (simp only: a[symmetric] b)
qed

lemma lower_no:
  assumes "ascii_lower x = CHR ''n''" "ascii_lower y = CHR ''o''"
  shows "lower_char x = CHR ''n''" "lower_char y = CHR ''o''" "is_word x" "is_word y"
proof -
  have g: "lower_char (CHR ''n'') = CHR ''n''" "lower_char (CHR ''N'') = CHR ''n''"
    "lower_char (CHR ''o'') = CHR ''o''" "lower_char (CHR ''O'') = CHR ''o''"
    "is_word (CHR ''n'')" "is_word (CHR ''N'')" "is_word (CHR ''o'')" "is_word (CHR ''O'')"
    by code_simp+
  from ascii_lower_n[OF assms(1)] g show "lower_char x = CHR ''n''" "is_word x" by auto
  from ascii_lower_o[OF assms(2)] g show "lower_char y = CHR ''o''" "is_word y" by auto
qed

lemma ms_Lit_Seq:
  "ms ci (Seq (Lit c) r) st =
     (case rest st of
        [] \<Rightarrow> []
      | x # xs \<Rightarrow> if char_matches ci x c then ms ci r (st\<lparr>prev := Some x, rest := xs\<rparr>) else [])"
  by (simp add: step_char_def split: list.splits)

lemma concat_map_concat:
  "concat (map f (concat (map g ys))) = concat (map (\<lambda>y. concat (map f (g y))) ys)"
  by (induction ys) auto

lemma ms_Seq_assoc: "ms ci (Seq (Seq a b) c) st = ms ci (Seq a (Seq b c)) st"
proof -
  have "ms ci (Seq b c) = (\<lambda>y. concat (map (ms ci c) (ms ci b y)))"
    by (rule ext) simp
  then show ?thesis by (simp add: concat_map_concat)
qed

lemma ms_WordB_Seq: "ms ci (Seq WordB r) st = (if at_boundary st then ms ci r st else [])"
  by simp

lemma ms_Group_nonempty: "ms ci (Group n r) st \<noteq> [] \<longleftrightarrow> ms ci r st \<noteq> []"
  by simp

lemma ms_Alt_nonempty: "ms ci (Alt r1 r2) st \<noteq> [] \<longleftrightarrow> ms ci r1 st \<noteq> [] \<or> ms ci r2 st \<noteq> []"
  by simp

lemma ms_Opt_nonempty: "ms ci (Opt r) st \<noteq> []"
  by simp

lemma ascii_lower_no: "ascii_lower (CHR ''n'') = CHR ''n''" "ascii_lower (CHR ''o'') = CHR ''o''"
  by code_simp+

lemma no_prefix:
  assumes "ms True (Seq (Lit (CHR ''n'')) (Seq (Lit (CHR ''o'')) r)) st \<noteq> []"
  shows "\<exists>x y zs. rest st = x # y # zs \<and> ascii_lower x = CHR ''n'' \<and> ascii_lower y = CHR ''o''"
  using assms
  by (auto simp add: ms_Lit_Seq char_matches_def ascii_lower_no simp del: ms.simps
      split: list.splits if_splits)

lemma quoted_no_prefix:
  assumes "ms True (Seq (Lit q) (Seq (Lit (CHR ''n'')) (Seq (Lit (CHR ''o'')) r))) st \<noteq> []"
  shows "\<exists>q' x y zs. rest st = q' # x # y # zs \<and> ascii_lower x = CHR ''n'' \<and>
           ascii_lower y = CHR ''o''"
  using assms
  by (auto simp add: ms_Lit_Seq char_matches_def ascii_lower_no simp del: ms.simps
      split: list.splits if_splits)

lemma explicit_no_starts:
  assumes "ms True explicit_no_re st \<noteq> []"
  shows "\<exists>pre x y zs. rest st = pre @ x # y # zs \<and> ascii_lower x = CHR ''n'' \<and>
           ascii_lower y = CHR ''o''"
proof -
  let ?a1 = "lits ''no outcome''"
  let ?a2 = "lits ([CHR 0x22] @ ''no'' @ [CHR 0x22])"
  let ?a3 = "lits ([CHR 0x27] @ ''no'' @ [CHR 0x27])"
  let ?tl = "Seq WordB (Opt (Alt (Seq (Plus Space) (lits ''option''))
                                (Seq (Plus Space) (lits ''side''))))"
  let ?a4 = "Seq WordB (Seq (lits ''no'') ?tl)"
  from assms have "ms True ?a1 st \<noteq> [] \<or> ms True ?a2 st \<noteq> [] \<or> ms True ?a3 st \<noteq> [] \<or>
      ms True ?a4 st \<noteq> []"
    by (simp add: explicit_no_re_def ms_WordB_Seq ms_Group_nonempty ms_Alt_nonempty
        del: ms.simps split: if_splits)
  then consider (a) "ms True ?a1 st \<noteq> []" | (b) "ms True ?a2 st \<noteq> []"
    | (c) "ms True ?a3 st \<noteq> []" | (d) "ms True ?a4 st \<noteq> []"
    by blast
  then show ?thesis
  proof cases
    case a
    have e: "?a1 = Seq (Lit (CHR ''n'')) (Seq (Lit (CHR ''o'')) (lits '' outcome''))"
      by simp
    from a[unfolded e] no_prefix obtain x y zs where "rest st = x # y # zs"
      "ascii_lower x = CHR ''n''" "ascii_lower y = CHR ''o''"
      by blast
    then have "rest st = [] @ x # y # zs \<and> ascii_lower x = CHR ''n'' \<and> ascii_lower y = CHR ''o''"
      by simp
    then show ?thesis by blast
  next
    case b
    have e: "?a2 = Seq (Lit (CHR 0x22)) (Seq (Lit (CHR ''n'')) (Seq (Lit (CHR ''o''))
        (Lit (CHR 0x22))))"
      by simp
    from b[unfolded e] quoted_no_prefix obtain q x y zs where "rest st = q # x # y # zs"
      "ascii_lower x = CHR ''n''" "ascii_lower y = CHR ''o''"
      by blast
    then have "rest st = [q] @ x # y # zs \<and> ascii_lower x = CHR ''n'' \<and> ascii_lower y = CHR ''o''"
      by simp
    then show ?thesis by blast
  next
    case c
    have e: "?a3 = Seq (Lit (CHR 0x27)) (Seq (Lit (CHR ''n'')) (Seq (Lit (CHR ''o''))
        (Lit (CHR 0x27))))"
      by simp
    from c[unfolded e] quoted_no_prefix obtain q x y zs where "rest st = q # x # y # zs"
      "ascii_lower x = CHR ''n''" "ascii_lower y = CHR ''o''"
      by blast
    then have "rest st = [q] @ x # y # zs \<and> ascii_lower x = CHR ''n'' \<and> ascii_lower y = CHR ''o''"
      by simp
    then show ?thesis by blast
  next
    case d
    then have "ms True (Seq (lits ''no'') ?tl) st \<noteq> []"
      by (simp add: ms_WordB_Seq del: ms.simps split: if_splits)
    then have "ms True (Seq (Lit (CHR ''n'')) (Seq (Lit (CHR ''o'')) ?tl)) st \<noteq> []"
      by (simp add: ms_Seq_assoc del: ms.simps)
    with no_prefix obtain x y zs where "rest st = x # y # zs"
      "ascii_lower x = CHR ''n''" "ascii_lower y = CHR ''o''"
      by blast
    then have "rest st = [] @ x # y # zs \<and> ascii_lower x = CHR ''n'' \<and> ascii_lower y = CHR ''o''"
      by simp
    then show ?thesis by blast
  qed
qed

lemma explicit_no_finds:
  assumes "ascii_lower x = CHR ''n''" "ascii_lower y = CHR ''o''"
    and "case p of None \<Rightarrow> True | Some c \<Rightarrow> \<not> is_word c"
    and "post = [] \<or> \<not> is_word (hd post)"
  shows "ms True explicit_no_re \<lparr>prev = p, rest = x # y # post, caps = []\<rparr> \<noteq> []"
proof -
  let ?st = "\<lparr>prev = p, rest = x # y # post, caps = []\<rparr>"
  let ?tl = "Seq WordB (Opt (Alt (Seq (Plus Space) (lits ''option''))
                                (Seq (Plus Space) (lits ''side''))))"
  note w = lower_no(3,4)[OF assms(1,2)]
  have b0: "at_boundary ?st"
    using assms(3) w by (auto simp: at_boundary_def split: option.splits)
  let ?st2 = "?st\<lparr>prev := Some x, rest := y # post\<rparr>\<lparr>prev := Some y, rest := post\<rparr>"
  have b2: "at_boundary ?st2"
    using assms(4) w by (cases post) (auto simp: at_boundary_def)
  have "ms True ?tl ?st2 \<noteq> []"
    using b2 by (simp add: ms_WordB_Seq ms_Opt_nonempty del: ms.simps)
  then have "ms True (Seq (Lit (CHR ''n'')) (Seq (Lit (CHR ''o'')) ?tl)) ?st \<noteq> []"
    using assms(1,2) by (simp add: ms_Lit_Seq char_matches_def ascii_lower_no del: ms.simps)
  then have "ms True (Seq (lits ''no'') ?tl) ?st \<noteq> []"
    by (simp add: ms_Seq_assoc del: ms.simps)
  then have "ms True (Seq WordB (Seq (lits ''no'') ?tl)) ?st \<noteq> []"
    using b0 by (simp add: ms_WordB_Seq del: ms.simps)
  then show ?thesis
    using b0
    by (simp add: explicit_no_re_def ms_WordB_Seq ms_Group_nonempty ms_Alt_nonempty
        del: ms.simps)
qed

lemma word_bounded_no_test:
  assumes "word_bounded_no text"
  shows "test_re True explicit_no_re text"
proof -
  from assms obtain pre x y post where t: "text = pre @ x # y # post"
    and xy: "ascii_lower x = CHR ''n''" "ascii_lower y = CHR ''o''"
    and l: "pre = [] \<or> \<not> is_word (last pre)" and r: "post = [] \<or> \<not> is_word (hd post)"
    unfolding word_bounded_no_def by blast
  let ?p = "if pre = [] then None else Some (last pre)"
  have "case ?p of None \<Rightarrow> True | Some c \<Rightarrow> \<not> is_word c"
    using l by auto
  from explicit_no_finds[OF xy this r]
  have "search True explicit_no_re None (pre @ x # y # post) \<noteq> None"
    by (rule search_finds)
  with t show ?thesis by (simp add: test_re_def)
qed

lemma test_no_includes:
  assumes "test_re True explicit_no_re text"
  shows "str_includes (toLowerCase text) ''no''"
proof -
  from assms have "search True explicit_no_re None text \<noteq> None"
    by (simp add: test_re_def)
  from search_found[OF this] obtain pre suf p' where t: "text = pre @ suf"
    and m: "ms True explicit_no_re \<lparr>prev = p', rest = suf, caps = []\<rparr> \<noteq> []"
    by blast
  from explicit_no_starts[OF m] obtain pre2 x y zs where s: "suf = pre2 @ x # y # zs"
    and xy: "ascii_lower x = CHR ''n''" "ascii_lower y = CHR ''o''"
    by auto
  from t s lower_no(1,2)[OF xy]
  have "toLowerCase text = toLowerCase (pre @ pre2) @ (''no'' @ toLowerCase zs)"
    by (simp add: toLowerCase_def)
  moreover have "starts_with (''no'' @ toLowerCase zs) ''no''"
    by simp
  ultimately show ?thesis
    using str_includes_at[of "''no'' @ toLowerCase zs" "''no''" "toLowerCase (pre @ pre2)"]
    by simp
qed

lemma detectOutcome_cases:
  "detectOutcome text =
     (if \<exists>kw\<in>set NO_KEYWORDS. str_includes (toLowerCase text) kw then ''No'' else ''Yes'')"
proof (cases "test_re True explicit_no_re text")
  case True
  from test_no_includes[OF True] have "\<exists>kw\<in>set NO_KEYWORDS. str_includes (toLowerCase text) kw"
    by (auto simp: NO_KEYWORDS_def)
  with True show ?thesis by (simp add: detectOutcome_def)
next
  case False
  then show ?thesis by (simp add: detectOutcome_def Let_def)
qed

lemma map_filter_the:
  "List.map_filter f xs = map the (filter (\<lambda>r. r \<noteq> None) (map f xs))"
  by (induction xs) (auto simp: List.map_filter_def)

section \<open>Claims about the condition parser\<close>

text \<open>
  C9. Outcome detection. A text that mentions \<^verbatim>\<open>no\<close> between word boundaries, or that
  the explicit pattern matches, gives \<^verbatim>\<open>No\<close>; so does a text whose lower-case form
  contains one of the negative cues; every other text gives \<^verbatim>\<open>Yes\<close>, whatever positive
  cue it contains. (An explicit mention always contains the cue \<^verbatim>\<open>no\<close>, so the result
  is \<^verbatim>\<open>No\<close> exactly when a negative cue occurs.)
\<close>

theorem detectOutcome_priority:
  "(word_bounded_no text \<longrightarrow> detectOutcome text = ''No'') \<and>
   (test_re True explicit_no_re text \<longrightarrow> detectOutcome text = ''No'') \<and>
   ((\<exists>kw\<in>set NO_KEYWORDS. str_includes (toLowerCase text) kw) \<longrightarrow> detectOutcome text = ''No'') \<and>
   (\<not> (\<exists>kw\<in>set NO_KEYWORDS. str_includes (toLowerCase text) kw) \<longrightarrow>
      detectOutcome text = ''Yes'')"
proof -
  have "detectOutcome text = ''No''" if "test_re True explicit_no_re text"
    using that by (simp add: detectOutcome_def)
  with word_bounded_no_test[of "text"] detectOutcome_cases[of "text"] show ?thesis
    by auto
qed

theorem detectOutcome_priority_witness:
  "word_bounded_no ''the No side'' \<and> detectOutcome ''the No side'' = ''No'' \<and>
   test_re True explicit_no_re ''the No side'' \<and>
   test_re True explicit_no_re (''say '' @ [CHR 0x22] @ ''no'' @ [CHR 0x22]) \<and>
   detectOutcome (''say '' @ [CHR 0x22] @ ''no'' @ [CHR 0x22]) = ''No'' \<and>
   str_includes (toLowerCase ''will not FAIL to pass'') ''fail'' \<and>
   str_includes (toLowerCase ''will not FAIL to pass'') ''pass'' \<and>
   detectOutcome ''will not FAIL to pass'' = ''No'' \<and>
   \<not> (\<exists>kw\<in>set NO_KEYWORDS. str_includes (toLowerCase ''Trump will win'') kw) \<and>
   detectOutcome ''Trump will win'' = ''Yes'' \<and>
   \<not> (\<exists>kw\<in>set NO_KEYWORDS. str_includes (toLowerCase ''Bitcoin ETF approval'') kw) \<and>
   detectOutcome ''Bitcoin ETF approval'' = ''Yes''"
proof -
  have "''the No side'' = ''the '' @ CHR ''N'' # CHR ''o'' # '' side'' \<and>
      ascii_lower (CHR ''N'') = CHR ''n'' \<and> ascii_lower (CHR ''o'') = CHR ''o'' \<and>
      (''the '' = [] \<or> \<not> is_word (last ''the '')) \<and>
      ('' side'' = [] \<or> \<not> is_word (hd '' side''))"
    by code_simp
  then have h1: "word_bounded_no ''the No side''"
    unfolding word_bounded_no_def by blast
  have h2: "test_re True explicit_no_re ''the No side''"
    "test_re True explicit_no_re (''say '' @ [CHR 0x22] @ ''no'' @ [CHR 0x22])"
    by code_simp+
  have h3: "str_includes (toLowerCase ''will not FAIL to pass'') ''fail''"
    "str_includes (toLowerCase ''will not FAIL to pass'') ''pass''"
    by code_simp+
  have "''fail'' \<in> set NO_KEYWORDS"
    by (simp add: NO_KEYWORDS_def)
  with h3 have h4: "\<exists>kw\<in>set NO_KEYWORDS. str_includes (toLowerCase ''will not FAIL to pass'') kw"
    by blast
  have h5: "\<not> (\<exists>kw\<in>set NO_KEYWORDS. str_includes (toLowerCase ''Trump will win'') kw)"
    by code_simp
  have h6: "\<not> (\<exists>kw\<in>set NO_KEYWORDS. str_includes (toLowerCase ''Bitcoin ETF approval'') kw)"
    by code_simp
  from detectOutcome_priority[of "''the No side''"]
    detectOutcome_priority[of "''say '' @ [CHR 0x22] @ ''no'' @ [CHR 0x22]"]
    detectOutcome_priority[of "''will not FAIL to pass''"]
    detectOutcome_priority[of "''Trump will win''"]
    detectOutcome_priority[of "''Bitcoin ETF approval''"] h1 h2 h3 h4 h5 h6
  show ?thesis by blast
qed

text \<open>
  C7. \<^verbatim>\<open>parseMultiConditionAlert\<close> trims each segment before it parses it, and a
  delimiter separates segments only with white space on both sides. So a text without
  delimiter that starts with white space can parse alone and yet give no condition, and a
  comma that follows a word directly does not split.
\<close>

theorem parseMulti_counterexample:
  "search True conjunction_re None ''  at 50%'' = None \<and>
   map_option (\<lambda>c. (direction c, threshold c)) (parseAlertRequest ''  at 50%'' ''u'') =
     Some (Above, 50) \<and>
   parseMultiConditionAlert ''  at 50%'' ''u'' = [] \<and>
   map (\<lambda>c. (direction c, threshold c))
     (parseMultiConditionAlert ''Trump > 60%, Biden < 40%'' ''u'') = [(Above, 60)]"
proof -
  have "search True conjunction_re None ''  at 50%'' = None"
    by code_simp
  moreover have "map_option (\<lambda>c. (direction c, threshold c))
      (parseAlertRequest ''  at 50%'' ''u'') = Some (Above, 50)"
    by code_simp
  moreover have "parseMultiConditionAlert ''  at 50%'' ''u'' = []"
    by code_simp
  moreover have "map (\<lambda>c. (direction c, threshold c))
     (parseMultiConditionAlert ''Trump > 60%, Biden < 40%'' ''u'') = [(Above, 60)]"
    by code_simp
  ultimately show ?thesis by blast
qed

text \<open>
  C7, amended. The text is split at each \<^verbatim>\<open>and\<close>, \<^verbatim>\<open>or\<close>, comma, \<^verbatim>\<open>&\<close> or \<^verbatim>\<open>|\<close>
  (letters in either case) that has white space on both sides; each segment is trimmed
  and parsed on its own, and the result holds the conditions of the segments that
  parse, in order. A text without such a delimiter gives what \<^verbatim>\<open>parseAlertRequest\<close>
  gives for the trimmed text, as a list of one or no element: the same as for the text
  itself when it neither starts nor ends with white space. The text
  \<^verbatim>\<open>Trump > 60% AND Biden < 40%\<close> gives two conditions, above 60 and below 40.
\<close>

theorem parseMulti_semantics:
  "parseMultiConditionAlert request url =
     map the (filter (\<lambda>r. r \<noteq> None)
       (map (\<lambda>part. parseAlertRequest (trim part) url) (split_re True conjunction_re request))) \<and>
   (search True conjunction_re None request = None \<longrightarrow>
      parseMultiConditionAlert request url =
        (case parseAlertRequest (trim request) url of None \<Rightarrow> [] | Some c \<Rightarrow> [c])) \<and>
   (search True conjunction_re None request = None \<and> trim request = request \<longrightarrow>
      parseMultiConditionAlert request url =
        (case parseAlertRequest request url of None \<Rightarrow> [] | Some c \<Rightarrow> [c])) \<and>
   split_re True conjunction_re ''Trump > 60% AND Biden < 40%'' = [''Trump > 60%'', ''Biden < 40%''] \<and>
   split_re True conjunction_re ''a and b Or c , d & e | f'' =
     [''a'', ''b'', ''c'', ''d'', ''e'', ''f''] \<and>
   map (\<lambda>c. (direction c, threshold c))
     (parseMultiConditionAlert ''Trump > 60% AND Biden < 40%'' ''u'') = [(Above, 60), (Below, 40)]"
proof -
  have a: "parseMultiConditionAlert request url =
     map the (filter (\<lambda>r. r \<noteq> None)
       (map (\<lambda>part. parseAlertRequest (trim part) url) (split_re True conjunction_re request)))"
    by (simp add: parseMultiConditionAlert_def map_filter_the)
  have b: "parseMultiConditionAlert request url =
        (case parseAlertRequest (trim request) url of None \<Rightarrow> [] | Some c \<Rightarrow> [c])"
    if "search True conjunction_re None request = None"
    using search_None_split[OF that]
    by (simp add: parseMultiConditionAlert_def List.map_filter_def split: option.splits)
  have c: "split_re True conjunction_re ''Trump > 60% AND Biden < 40%'' =
      [''Trump > 60%'', ''Biden < 40%'']"
    by code_simp
  have d: "map (\<lambda>c. (direction c, threshold c))
     (parseMultiConditionAlert ''Trump > 60% AND Biden < 40%'' ''u'') = [(Above, 60), (Below, 40)]"
    by code_simp
  have e: "split_re True conjunction_re ''a and b Or c , d & e | f'' =
     [''a'', ''b'', ''c'', ''d'', ''e'', ''f'']"
    by code_simp
  from a b c d e show ?thesis by metis
qed

theorem parseMulti_semantics_witness:
  "search True conjunction_re None ''Trump > 70%'' = None \<and> trim ''Trump > 70%'' = ''Trump > 70%'' \<and>
   map_option (\<lambda>c. (direction c, threshold c)) (parseAlertRequest ''Trump > 70%'' ''u'') =
     Some (Above, 70) \<and>
   map (\<lambda>c. (direction c, threshold c)) (parseMultiConditionAlert ''Trump > 70%'' ''u'') =
     [(Above, 70)] \<and>
   parseMultiConditionAlert ''Trump > 70%'' ''u'' =
     (case parseAlertRequest ''Trump > 70%'' ''u'' of None \<Rightarrow> [] | Some c \<Rightarrow> [c]) \<and>
   search True conjunction_re None ''  at 50%'' = None \<and> trim ''  at 50%'' = ''at 50%'' \<and>
   parseAlertRequest ''at 50%'' ''u'' = None \<and>
   parseMultiConditionAlert ''  at 50%'' ''u'' =
     (case parseAlertRequest (trim ''  at 50%'') ''u'' of None \<Rightarrow> [] | Some c \<Rightarrow> [c])"
proof -
  have h1: "search True conjunction_re None ''Trump > 70%'' = None"
    by code_simp
  have h2: "trim ''Trump > 70%'' = ''Trump > 70%''"
    by code_simp
  have h3: "map_option (\<lambda>c. (direction c, threshold c)) (parseAlertRequest ''Trump > 70%'' ''u'') =
     Some (Above, 70)"
    by code_simp
  have h4: "map (\<lambda>c. (direction c, threshold c)) (parseMultiConditionAlert ''Trump > 70%'' ''u'') =
     [(Above, 70)]"
    by code_simp
  have h5: "search True conjunction_re None ''  at 50%'' = None"
    by code_simp
  have h6: "trim ''  at 50%'' = ''at 50%''"
    by code_simp
  have h7: "parseAlertRequest ''at 50%'' ''u'' = None"
    by code_simp
  from parseMulti_semantics[of "''Trump > 70%''" "''u''"]
    parseMulti_semantics[of "''  at 50%''" "''u''"] h1 h2 h3 h4 h5 h6 h7
  show ?thesis by metis
qed

text \<open>
  C3. The threshold scale at the decimal format. \<^verbatim>\<open>extractPercentage\<close> reads \<^verbatim>\<open>0.60\<close>
  with the pattern \<^verbatim>\<open>0\.(\d+)\<close>, whose group holds the digits after the point, and
  multiplies their value by 100: the result is 6000, not 60. The four patterns of
  \<^verbatim>\<open>parseAlertRequest\<close> take the number as written: the double 0.6. The formats with a percent
  sign, \<^verbatim>\<open>percent\<close> and \<^verbatim>\<open>cents\<close> give 60.
\<close>

theorem threshold_scale_evaluation:
  "extractPercentage ''0.60'' = Some 6000 \<and>
   map_option threshold (parseAlertRequest ''Trump below 0.60'' ''u'') = Some 6000 \<and>
   map_option threshold (parseAlertRequest ''Trump > 0.60'' ''u'') = Some (round_double (6 / 10)) \<and>
   extractPercentage ''.60'' = Some 60 \<and>
   extractPercentage ''60%'' = Some 60 \<and>
   extractPercentage ''60 percent'' = Some 60 \<and>
   extractPercentage ''60 cents'' = Some 60 \<and>
   map_option threshold (parseAlertRequest ''Trump above 60%'' ''u'') = Some 60 \<and>
   map_option threshold (parseAlertRequest ''Trump above 60 percent'' ''u'') = Some 60 \<and>
   map_option threshold (parseAlertRequest ''Trump above 60 cents'' ''u'') = Some 60"
proof -
  have "extractPercentage ''0.60'' = Some 6000"
    by code_simp
  moreover have "map_option threshold (parseAlertRequest ''Trump below 0.60'' ''u'') = Some 6000"
    by code_simp
  moreover have "map_option threshold (parseAlertRequest ''Trump > 0.60'' ''u'') = Some (round_double (6 / 10))"
    by code_simp
  moreover have "extractPercentage ''.60'' = Some 60"
    by code_simp
  moreover have "extractPercentage ''60%'' = Some 60"
    by code_simp
  moreover have "extractPercentage ''60 percent'' = Some 60"
    by code_simp
  moreover have "extractPercentage ''60 cents'' = Some 60"
    by code_simp
  moreover have "map_option threshold (parseAlertRequest ''Trump above 60%'' ''u'') = Some 60"
    by code_simp
  moreover have "map_option threshold (parseAlertRequest ''Trump above 60 percent'' ''u'') = Some 60"
    by code_simp
  moreover have "map_option threshold (parseAlertRequest ''Trump above 60 cents'' ''u'') = Some 60"
    by code_simp
  ultimately show ?thesis by blast
qed

end
